theory Spec2Isabelle
  imports Complex_Main "HOL-Library.Sublist" "HOL-Library.FSet"
begin

section \<open>Python strings\<close>

text \<open>
  A Python \<open>str\<close> is modelled as an Isabelle \<open>string\<close>; a \<open>char\<close> stands for the code
  point of the same number (0 to 255). Every character the crawler inspects (slash, dot,
  colon, question mark, hash, semicolon, brackets, white space) is in that range.
\<close>

definition startswith :: "string \<Rightarrow> string \<Rightarrow> bool" where
  "startswith s p = prefix p s"

definition endswith :: "string \<Rightarrow> string \<Rightarrow> bool" where
  "endswith s p = suffix p s"

text \<open>\<open>s.lstrip(cs)\<close> and \<open>s.rstrip(cs)\<close> with an explicit character set.\<close>

definition lstrip_chars :: "string \<Rightarrow> string \<Rightarrow> string" where
  "lstrip_chars cs s = dropWhile (\<lambda>c. c \<in> set cs) s"

definition rstrip_chars :: "string \<Rightarrow> string \<Rightarrow> string" where
  "rstrip_chars cs s = rev (dropWhile (\<lambda>c. c \<in> set cs) (rev s))"

text \<open>
  \<open>str.isspace\<close> on the code points below 256: tab, line feed, vertical tab, form feed,
  carriage return, the separators 0x1C to 0x1F, space, NEL (0x85) and NBSP (0xA0).
\<close>

definition isspace :: "char \<Rightarrow> bool" where
  "isspace c = (let n = (of_char c :: nat) in
     (9 \<le> n \<and> n \<le> 13) \<or> (28 \<le> n \<and> n \<le> 32) \<or> n = 133 \<or> n = 160)"

text \<open>\<open>s.strip()\<close> without argument.\<close>

definition strip :: "string \<Rightarrow> string" where
  "strip s = rev (dropWhile isspace (rev (dropWhile isspace s)))"

text \<open>
  \<open>s.replace(old, new)\<close>: the occurrences of \<open>old\<close> are found from the left and do not
  overlap. With an empty \<open>old\<close> Python puts \<open>new\<close> before every character and at the end.
\<close>

function replace :: "string \<Rightarrow> string \<Rightarrow> string \<Rightarrow> string" where
  "replace old new s =
     (if old = [] then new @ concat (map (\<lambda>c. c # new) s)
      else if s = [] then []
      else if prefix old s then new @ replace old new (drop (length old) s)
      else hd s # replace old new (tl s))"
  by pat_completeness auto
termination
  by (relation "measure (\<lambda>(old, new, s). length s)") auto

declare replace.simps [simp del]

text \<open>
  \<open>s[i:]\<close> and \<open>s[:j]\<close> with Python's rule for a negative bound (it counts from the end,
  and a bound beyond either end is clipped).
\<close>

definition slice_from :: "string \<Rightarrow> int \<Rightarrow> string" where
  "slice_from s i = (if 0 \<le> i then drop (nat i) s else drop (length s - nat (- i)) s)"

definition slice_to :: "string \<Rightarrow> int \<Rightarrow> string" where
  "slice_to s j = (if 0 \<le> j then take (nat j) s else take (length s - nat (- j)) s)"

text \<open>\<open>s.lower()\<close>: the letters A to Z, and the upper-case letters of Latin-1.\<close>

definition lower_char :: "char \<Rightarrow> char" where
  "lower_char c = (let n = (of_char c :: nat) in
     if (65 \<le> n \<and> n \<le> 90) \<or> (192 \<le> n \<and> n \<le> 222 \<and> n \<noteq> 215)
     then char_of (n + 32) else c)"

definition lower :: "string \<Rightarrow> string" where
  "lower s = map lower_char s"

text \<open>\<open>s.split(c, 1)\<close> for a character \<open>c\<close> that occurs in \<open>s\<close>: the text before the first
  occurrence, and the text after it.\<close>

definition split1 :: "char \<Rightarrow> string \<Rightarrow> string \<times> string" where
  "split1 c s = (takeWhile (\<lambda>x. x \<noteq> c) s, tl (dropWhile (\<lambda>x. x \<noteq> c) s))"

text \<open>The part of \<open>s\<close> after its last \<open>c\<close> (all of \<open>s\<close> when there is none), and the part
  before it, up to and including that \<open>c\<close>.\<close>

definition after_last :: "char \<Rightarrow> string \<Rightarrow> string" where
  "after_last c s = rev (takeWhile (\<lambda>x. x \<noteq> c) (rev s))"

definition upto_last :: "char \<Rightarrow> string \<Rightarrow> string" where
  "upto_last c s = rev (dropWhile (\<lambda>x. x \<noteq> c) (rev s))"

section \<open>os.path.splitext\<close>

text \<open>
  \<open>posixpath.splitext\<close>: the extension starts at the last dot of the last path segment,
  provided some character of that segment before the dot is not a dot; otherwise the
  extension is empty. (\<open>sepIndex = p.rfind('/')\<close>, \<open>dotIndex = p.rfind('.')\<close>; the
  extension is \<open>p[dotIndex:]\<close> when \<open>dotIndex > sepIndex\<close> and
  \<open>p[sepIndex+1:dotIndex]\<close> holds a character other than a dot.)
\<close>

definition splitext :: "string \<Rightarrow> string \<times> string" where
  "splitext p =
     (let name = after_last CHR ''/'' p in
      if CHR ''.'' \<in> set name then
        (let ext = CHR ''.'' # after_last CHR ''.'' name;
             stem = take (length name - length ext) name
         in if list_ex (\<lambda>c. c \<noteq> CHR ''.'') stem
            then (take (length p - length ext) p, ext)
            else (p, []))
      else (p, []))"

section \<open>urllib.parse\<close>

text \<open>
  The functions of \<open>urllib.parse\<close> that the crawler calls, as in CPython 3.11.10.
  \<open>urlsplit\<close> raises \<open>ValueError\<close> on a network location with unbalanced brackets, on a
  bracketed host that \<open>_check_bracketed_host\<close> refuses, and on a non-ASCII network
  location that \<open>_checknetloc\<close> refuses. The last two consult \<open>ipaddress\<close> and
  \<open>unicodedata\<close>; they are parameters of the model.
\<close>

datatype exn = ValueError | SoupError | ZeroDivisionError | IndexError | OSError | OverflowError

record pylib =
  check_bracketed_host :: "string \<Rightarrow> bool"
  checknetloc :: "string \<Rightarrow> bool"

record parse_result =
  scheme :: string
  netloc :: string
  path :: string
  params :: string
  query :: string
  fragment :: string

definition scheme_chars :: string where
  "scheme_chars = ''abcdefghijklmnopqrstuvwxyzABCDEFGHIJKLMNOPQRSTUVWXYZ0123456789+-.''"

definition is_ascii_alpha :: "char \<Rightarrow> bool" where
  "is_ascii_alpha c = (let n = (of_char c :: nat) in
     (65 \<le> n \<and> n \<le> 90) \<or> (97 \<le> n \<and> n \<le> 122))"

text \<open>Leading C0 control characters and spaces are stripped; tab, CR and LF are removed
  everywhere.\<close>

definition clean_url :: "string \<Rightarrow> string" where
  "clean_url url =
     filter (\<lambda>c. c \<noteq> CHR 0x09 \<and> c \<noteq> CHR 0x0D \<and> c \<noteq> CHR 0x0A)
       (dropWhile (\<lambda>c. (of_char c :: nat) \<le> 32) url)"

text \<open>The scheme, when the text before the first colon is a non-empty run of scheme
  characters that starts with an ASCII letter; the result is the lower-cased scheme and
  the rest of the URL.\<close>

definition split_scheme :: "string \<Rightarrow> string \<times> string" where
  "split_scheme url =
     (let pre = takeWhile (\<lambda>c. c \<noteq> CHR '':'') url in
      if CHR '':'' \<in> set url \<and> pre \<noteq> [] \<and> is_ascii_alpha (hd url)
         \<and> list_all (\<lambda>c. c \<in> set scheme_chars) pre
      then (lower pre, drop (length pre + 1) url)
      else ([], url))"

definition is_delim :: "char \<Rightarrow> bool" where
  "is_delim c = (c = CHR ''/'' \<or> c = CHR ''?'' \<or> c = CHR ''#'')"

text \<open>\<open>_splitnetloc(url, 2)\<close>: the network location runs from index 2 to the first of
  slash, question mark and hash.\<close>

definition splitnetloc :: "string \<Rightarrow> string \<times> string" where
  "splitnetloc url =
     (takeWhile (\<lambda>c. \<not> is_delim c) (drop 2 url), dropWhile (\<lambda>c. \<not> is_delim c) (drop 2 url))"

definition bracketed_host :: "string \<Rightarrow> string" where
  "bracketed_host nl =
     takeWhile (\<lambda>c. c \<noteq> CHR '']'') (tl (dropWhile (\<lambda>c. c \<noteq> CHR ''['') nl))"

definition netloc_brackets_ok :: "pylib \<Rightarrow> string \<Rightarrow> bool" where
  "netloc_brackets_ok L nl =
     (let lb = CHR ''['' \<in> set nl; rb = CHR '']'' \<in> set nl in
      if (lb \<and> \<not> rb) \<or> (rb \<and> \<not> lb) then False
      else if lb \<and> rb then check_bracketed_host L (bracketed_host nl)
      else True)"

definition is_ascii :: "string \<Rightarrow> bool" where
  "is_ascii s = list_all (\<lambda>c. (of_char c :: nat) < 128) s"

definition urlsplit :: "pylib \<Rightarrow> string \<Rightarrow> exn + (string \<times> string \<times> string \<times> string \<times> string)" where
  "urlsplit L url0 =
     (let (sch, url1) = split_scheme (clean_url url0);
          has_nl = (take 2 url1 = ''//'');
          (nl, url2) = (if has_nl then splitnetloc url1 else ([], url1))
      in if has_nl \<and> \<not> netloc_brackets_ok L nl then Inl ValueError
         else
           (let (url3, frag) = (if CHR ''#'' \<in> set url2 then split1 CHR ''#'' url2 else (url2, []));
                (url4, qry) = (if CHR ''?'' \<in> set url3 then split1 CHR ''?'' url3 else (url3, []))
            in if nl \<noteq> [] \<and> \<not> is_ascii nl \<and> \<not> checknetloc L nl then Inl ValueError
               else Inr (sch, nl, url4, qry, frag)))"

definition uses_params :: "string list" where
  "uses_params = [[], ''ftp'', ''hdl'', ''prospero'', ''http'', ''imap'', ''https'', ''shttp'',
     ''rtsp'', ''rtsps'', ''rtspu'', ''sip'', ''sips'', ''mms'', ''sftp'', ''tel'']"

definition uses_netloc :: "string list" where
  "uses_netloc = [[], ''ftp'', ''http'', ''gopher'', ''nntp'', ''telnet'', ''imap'', ''wais'',
     ''file'', ''mms'', ''https'', ''shttp'', ''snews'', ''prospero'', ''rtsp'', ''rtsps'',
     ''rtspu'', ''rsync'', ''svn'', ''svn+ssh'', ''sftp'', ''nfs'', ''git'', ''git+ssh'',
     ''ws'', ''wss'']"

text \<open>
  \<open>_splitparams\<close>: with a slash in \<open>url\<close>, the parameters start at the first semicolon of
  the last segment (none: no parameters); without a slash, at the first semicolon, and
  \<open>find\<close> answering -1 makes the slices \<open>url[:-1]\<close> and \<open>url[0:]\<close>.
\<close>

definition splitparams :: "string \<Rightarrow> string \<times> string" where
  "splitparams url =
     (if CHR ''/'' \<in> set url then
        (let seg = after_last CHR ''/'' url in
         if CHR '';'' \<in> set seg
         then (upto_last CHR ''/'' url @ takeWhile (\<lambda>c. c \<noteq> CHR '';'') seg,
               tl (dropWhile (\<lambda>c. c \<noteq> CHR '';'') seg))
         else (url, []))
      else if CHR '';'' \<in> set url then split1 CHR '';'' url
      else (butlast url, url))"

definition urlparse :: "pylib \<Rightarrow> string \<Rightarrow> exn + parse_result" where
  "urlparse L url =
     (case urlsplit L url of
        Inl e \<Rightarrow> Inl e
      | Inr (sch, nl, u, qry, frag) \<Rightarrow>
          (let (u', prm) = (if sch \<in> set uses_params \<and> CHR '';'' \<in> set u
                            then splitparams u else (u, []))
           in Inr \<lparr>scheme = sch, netloc = nl, path = u', params = prm,
                    query = qry, fragment = frag\<rparr>))"

definition urlunsplit :: "string \<Rightarrow> string \<Rightarrow> string \<Rightarrow> string \<Rightarrow> string \<Rightarrow> string" where
  "urlunsplit sch nl url qry frag =
     (let url1 = (if nl \<noteq> [] \<or> (sch \<noteq> [] \<and> sch \<in> set uses_netloc) \<or> take 2 url = ''//''
                  then ''//'' @ nl @ (if url \<noteq> [] \<and> take 1 url \<noteq> ''/'' then CHR ''/'' # url else url)
                  else url);
          url2 = (if sch \<noteq> [] then sch @ '':'' @ url1 else url1);
          url3 = (if qry \<noteq> [] then url2 @ ''?'' @ qry else url2)
      in if frag \<noteq> [] then url3 @ ''#'' @ frag else url3)"

definition urlunparse :: "parse_result \<Rightarrow> string" where
  "urlunparse p =
     urlunsplit (scheme p) (netloc p)
       (if params p \<noteq> [] then path p @ '';'' @ params p else path p)
       (query p) (fragment p)"

section \<open>Utilities of the crawler\<close>

definition ALLOWED_SCHEMES :: "string list" where
  "ALLOWED_SCHEMES = [''http'', ''https'']"

definition HTML_EXTS :: "string list" where
  "HTML_EXTS = [''.html'', ''.htm'', ''.md'', ''.txt'', ''.php'', ''.aspx'', []]"

text \<open>\<open>normalize_url\<close>: the empty string is the rejection marker.\<close>

definition normalize_url :: "pylib \<Rightarrow> string \<Rightarrow> exn + string" where
  "normalize_url L url =
     (case urlparse L url of
        Inl e \<Rightarrow> Inl e
      | Inr p \<Rightarrow>
          if scheme p \<notin> set ALLOWED_SCHEMES then Inr []
          else
            (let p2 = p\<lparr>query := [], fragment := []\<rparr>;
                 path0 = (if path p2 \<noteq> [] then path p2 else ''/'');
                 ext = snd (splitext path0);
                 path1 = (if ext = [] \<and> \<not> endswith path0 ''/'' then path0 @ ''/'' else path0)
             in Inr (urlunparse (p2\<lparr>path := path1\<rparr>))))"

definition is_within_base :: "pylib \<Rightarrow> string \<Rightarrow> string \<Rightarrow> string \<Rightarrow> exn + bool" where
  "is_within_base L url base_netloc base_path =
     (case urlparse L url of
        Inl e \<Rightarrow> Inl e
      | Inr p \<Rightarrow> Inr (netloc p = base_netloc \<and> startswith (path p) base_path))"

definition url_to_relpath :: "pylib \<Rightarrow> string \<Rightarrow> string \<Rightarrow> exn + string" where
  "url_to_relpath L url base_path =
     (case urlparse L url of
        Inl e \<Rightarrow> Inl e
      | Inr p \<Rightarrow>
          (let rel0 = (if \<not> startswith (path p) base_path then lstrip_chars ''/'' (path p)
                       else lstrip_chars ''/'' (drop (length base_path) (path p)));
               root_like = (rel0 = [] \<or> endswith rel0 ''/'');
               rel1 = (if root_like \<or> snd (splitext rel0) = []
                       then lstrip_chars ''/'' (rstrip_chars ''/'' rel0 @ ''/index.html'')
                       else rel0);
               rel2 = replace ''..'' ''_'' rel1
           in Inr (if rel2 \<noteq> [] then rel2 else ''index.html'')))"

section \<open>Chunking\<close>

text \<open>
  \<open>re.split(r"\n{2,}", text)\<close>: the text is cut at every maximal run of two or more line
  feeds. \<open>acc\<close> holds the current piece, reversed.
\<close>

function re_split_paras :: "string \<Rightarrow> string \<Rightarrow> string list" where
  "re_split_paras acc [] = [rev acc]"
| "re_split_paras acc (c # r) =
     (if c = CHR 0x0A \<and> r \<noteq> [] \<and> hd r = CHR 0x0A
      then rev acc # re_split_paras [] (dropWhile (\<lambda>x. x = CHR 0x0A) r)
      else re_split_paras (c # acc) r)"
  by pat_completeness auto
termination
  by (relation "measure (\<lambda>(acc, s). length s)")
     (auto simp: less_Suc_eq_le length_dropWhile_le)

text \<open>The loop of \<open>chunk_text\<close> over the paragraphs, on the pair \<open>(chunks, buf)\<close>.\<close>

fun chunk_loop :: "int \<Rightarrow> int \<Rightarrow> string list \<Rightarrow> string list \<times> string \<Rightarrow> string list \<times> string" where
  "chunk_loop max_chars overlap [] (chunks, buf) = (chunks, buf)"
| "chunk_loop max_chars overlap (p # ps) (chunks, buf) =
     (if int (length buf) + int (length p) + 1 \<le> max_chars
      then chunk_loop max_chars overlap ps (chunks, strip (buf @ [CHR 0x0A] @ p))
      else chunk_loop max_chars overlap ps
             (if buf \<noteq> [] then chunks @ [buf] else chunks,
              if overlap \<noteq> 0 \<and> int (length buf) > overlap
              then strip (slice_from buf (- overlap) @ [CHR 0x0A] @ p) else p))"

definition chunk_text :: "string \<Rightarrow> int \<Rightarrow> int \<Rightarrow> string list" where
  "chunk_text text max_chars overlap =
     (if max_chars \<le> 0 then (if text \<noteq> [] then [text] else [])
      else
        (let paras = map strip (filter (\<lambda>p. strip p \<noteq> []) (re_split_paras [] text));
             (chunks, buf) = chunk_loop max_chars overlap paras ([], []);
             chunks' = (if buf \<noteq> [] then chunks @ [buf] else chunks)
         in if chunks' \<noteq> [] then chunks'
            else if strip text = [] then [] else [slice_to text max_chars]))"

section \<open>The crawler\<close>

subsection \<open>The world outside the program\<close>

text \<open>
  The collaborators of the crawler are parameters: the HTTP session, the robots.txt
  parser, BeautifulSoup (text and title of a page, and the \<open>href\<close> values of its
  anchors), \<open>urljoin\<close>, SHA-1, the sitemap discovery, the file system's \<open>mkdir\<close> and
  \<open>time.sleep\<close>. A request may be answered differently each time, so \<open>http_get\<close> also
  takes the number of requests made before it; so does \<open>fs_mkdir\<close>, which stands for
  \<open>path.parent.mkdir(parents=True, exist_ok=True)\<close> on the given artifact path.
  \<open>None\<close> from \<open>robots_can_fetch\<close> or \<open>soup_text_title\<close> stands for an exception raised
  by the library; \<open>fs_mkdir\<close> and \<open>time_sleep\<close> answer with the exception they raise, or
  with \<open>None\<close> when they return. (CPython's \<open>time.sleep\<close> raises \<open>ValueError\<close> for a
  negative number and for NaN, and \<open>OverflowError\<close> or \<open>OSError\<close> for a number beyond the
  platform's range.)
\<close>

datatype response = Response int string | TransportError

text \<open>A Python \<open>float\<close>, as \<open>argparse\<close> reads \<open>--delay\<close>: a number, NaN, or an infinity.\<close>

datatype pyfloat = Finite real | NaN | PosInf | NegInf

record world =
  lib :: pylib
  http_get :: "nat \<Rightarrow> string \<Rightarrow> response"
  robots_can_fetch :: "string \<Rightarrow> bool option"
  soup_text_title :: "string \<Rightarrow> (string \<times> string) option"
  soup_hrefs :: "string \<Rightarrow> string list"
  urljoin :: "string \<Rightarrow> string \<Rightarrow> exn + string"
  hash_text :: "string \<Rightarrow> string"
  sitemap_locs :: "string \<Rightarrow> string list"
  fs_mkdir :: "nat \<Rightarrow> string \<Rightarrow> exn option"
  time_sleep :: "pyfloat \<Rightarrow> exn option"

subsection \<open>Data structures\<close>

record stats =
  pages_fetched :: nat
  pages_skipped :: nat
  pages_failed :: nat
  chunks_written :: nat
  chunks_deduped :: nat
  queue_peek :: nat

text \<open>A line of \<open>corpus_full.jsonl\<close>, of \<open>corpus_min.jsonl\<close> and of \<open>manifest.csv\<close>.\<close>

record full_obj =
  fo_id :: string
  fo_url :: string
  fo_title :: string
  fo_chunk_index :: nat
  fo_chunk_count :: nat
  fo_contents :: string
  fo_hash :: string

record min_obj =
  mo_id :: string
  mo_contents :: string

record manifest_row =
  mr_id :: string
  mr_url :: string
  mr_title :: string
  mr_html_path :: string
  mr_txt_path :: string
  mr_chars :: nat

datatype manifest_line = Header | Row manifest_row

text \<open>The output directory: a file that does not exist is \<open>None\<close>.\<close>

record disk =
  corpus_full :: "full_obj list option"
  corpus_min :: "min_obj list option"
  manifest_csv :: "manifest_line list option"
  stats_json :: "stats option"
  html_files :: "string \<rightharpoonup> string"
  text_files :: "string \<rightharpoonup> string"

text \<open>The command line, as \<open>main\<close> hands it to \<open>Crawler\<close>. A regular expression is given
  compiled, as the predicate \<open>search\<close> decides; \<open>None\<close> is the empty option string.\<close>

record args =
  arg_base_url :: string
  arg_max_pages :: int
  arg_delay :: pyfloat
  arg_include_re :: "(string \<Rightarrow> bool) option"
  arg_exclude_re :: "(string \<Rightarrow> bool) option"
  arg_respect_robots :: bool
  arg_use_sitemap :: bool
  arg_resume :: bool
  arg_chunk_size :: int
  arg_chunk_overlap :: int
  arg_heartbeat_every :: int
  arg_save_html :: bool
  arg_save_text :: bool

text \<open>
  The fields of a \<open>Crawler\<close> object, in three groups: \<open>conf\<close> holds what the constructor
  stores once and the loop only reads; \<open>out\<close> holds the output directory, where \<open>fw_full\<close>,
  \<open>fw_min\<close> and \<open>fw_mani\<close> are the three files opened for appending, as their whole
  contents (every page's writes are flushed); the rest is the state of the crawl.
  \<open>fetch_log\<close> and \<open>hash_log\<close> are not fields of the Python object: they record, in
  order, the URLs passed to \<open>session.get\<close> and the hashes computed by \<open>hash_text\<close>.
\<close>

record config =
  base_url :: string
  base_netloc :: string
  base_path :: string
  max_pages :: int
  delay :: pyfloat
  include_re :: "(string \<Rightarrow> bool) option"
  exclude_re :: "(string \<Rightarrow> bool) option"
  robot_parser :: bool
  use_sitemap :: bool
  chunk_size :: int
  chunk_overlap :: int
  heartbeat_every :: int
  save_html :: bool
  save_text :: bool

record outputs =
  fw_full :: "full_obj list"
  fw_min :: "min_obj list"
  fw_mani :: "manifest_line list"
  out_stats :: "stats option"
  out_html :: "string \<rightharpoonup> string"
  out_txt :: "string \<rightharpoonup> string"

record crawler =
  conf :: config
  visited :: "string fset"
  queue :: "string list"
  page_id :: nat
  stats :: stats
  chunk_hashes :: "string fset"
  out :: outputs
  fetch_log :: "string list"
  hash_log :: "string list"

definition disk_of :: "outputs \<Rightarrow> disk" where
  "disk_of f = \<lparr>corpus_full = Some (fw_full f), corpus_min = Some (fw_min f),
     manifest_csv = Some (fw_mani f), stats_json = out_stats f,
     html_files = out_html f, text_files = out_txt f\<rparr>"

subsection \<open>Resume\<close>

text \<open>
  \<open>read_existing_urls_from_manifest\<close>: \<open>csv.DictReader\<close> takes the first line as the
  field names and yields the \<open>url\<close> cell of every later line; a header line written again
  further down reads as a row whose \<open>url\<close> is the word \<open>url\<close>. Every manifest this program
  creates starts with the header; a file that does not is read as holding no URL.
\<close>

definition line_url :: "manifest_line \<Rightarrow> string" where
  "line_url l = (case l of Header \<Rightarrow> ''url'' | Row r \<Rightarrow> mr_url r)"

definition read_existing_urls_from_manifest :: "manifest_line list option \<Rightarrow> string fset" where
  "read_existing_urls_from_manifest f =
     (case f of
        None \<Rightarrow> {||}
      | Some [] \<Rightarrow> {||}
      | Some (Header # rows) \<Rightarrow> fset_of_list (map line_url rows)
      | Some (Row r # rows) \<Rightarrow> {||})"

subsection \<open>Seeding\<close>

text \<open>The loop of \<open>seed_queue\<close> over the sitemap links; \<open>q\<close> is the queue.\<close>

fun seed_links :: "pylib \<Rightarrow> string \<Rightarrow> string \<Rightarrow> string list \<Rightarrow> string list \<Rightarrow> exn + string list" where
  "seed_links L bnl bpath [] q = Inr q"
| "seed_links L bnl bpath (link # links) q =
     (case normalize_url L link of
        Inl e \<Rightarrow> Inl e
      | Inr n \<Rightarrow>
          if n = [] then seed_links L bnl bpath links q
          else (case is_within_base L n bnl bpath of
                  Inl e \<Rightarrow> Inl e
                | Inr b \<Rightarrow> seed_links L bnl bpath links (if b then q @ [n] else q)))"

definition seed_queue :: "world \<Rightarrow> crawler \<Rightarrow> exn + crawler" where
  "seed_queue w s =
     (let q = queue s @ [base_url (conf s)] in
      if use_sitemap (conf s)
      then (case seed_links (lib w) (base_netloc (conf s)) (base_path (conf s))
                   (sitemap_locs w (base_url (conf s))) q of
              Inl e \<Rightarrow> Inl e
            | Inr q' \<Rightarrow> Inr (s\<lparr>queue := q'\<rparr>))
      else Inr (s\<lparr>queue := q\<rparr>))"

subsection \<open>The constructor\<close>

text \<open>
  \<open>Crawler.__init__\<close>. An exception leaves no crawler; the result then carries the
  output directory as the constructor left it.
\<close>

definition Crawler_init :: "world \<Rightarrow> args \<Rightarrow> disk \<Rightarrow> (exn \<times> disk) + crawler" where
  "Crawler_init w a d =
     (case normalize_url (lib w) (arg_base_url a) of
        Inl e \<Rightarrow> Inl (e, d)
      | Inr bu \<Rightarrow>
          if bu = [] then Inl (ValueError, d)
          else
            (case urlparse (lib w) bu of
               Inl e \<Rightarrow> Inl (e, d)
             | Inr bp \<Rightarrow>
                 (let resumed = (arg_resume a \<and> manifest_csv d \<noteq> None);
                      mani0 = (case manifest_csv d of None \<Rightarrow> [] | Some ls \<Rightarrow> ls);
                      s = \<lparr>conf = \<lparr>base_url = bu,
                             base_netloc = netloc bp,
                             base_path = (if endswith (path bp) ''/'' then path bp else path bp @ ''/''),
                             max_pages = arg_max_pages a,
                             delay = arg_delay a,
                             include_re = arg_include_re a,
                             exclude_re = arg_exclude_re a,
                             robot_parser = arg_respect_robots a,
                             use_sitemap = arg_use_sitemap a,
                             chunk_size = arg_chunk_size a,
                             chunk_overlap = arg_chunk_overlap a,
                             heartbeat_every = arg_heartbeat_every a,
                             save_html = arg_save_html a,
                             save_text = arg_save_text a\<rparr>,
                           visited = (if resumed then read_existing_urls_from_manifest (manifest_csv d)
                                      else {||}),
                           queue = [],
                           page_id = (if resumed
                                      then (case corpus_full d of None \<Rightarrow> 0 | Some ls \<Rightarrow> length ls)
                                      else 0),
                           stats = \<lparr>pages_fetched = 0, pages_skipped = 0, pages_failed = 0,
                                     chunks_written = 0, chunks_deduped = 0, queue_peek = 0\<rparr>,
                           chunk_hashes = {||},
                           out = \<lparr>fw_full = (case corpus_full d of None \<Rightarrow> [] | Some ls \<Rightarrow> ls),
                                  fw_min = (case corpus_min d of None \<Rightarrow> [] | Some ls \<Rightarrow> ls),
                                  fw_mani = (if \<not> arg_resume a \<or> mani0 = [] then mani0 @ [Header]
                                             else mani0),
                                  out_stats = stats_json d,
                                  out_html = html_files d,
                                  out_txt = text_files d\<rparr>,
                           fetch_log = [],
                           hash_log = []\<rparr>
                  in case seed_queue w s of
                       Inl e \<Rightarrow> Inl (e, disk_of (out s))
                     | Inr s' \<Rightarrow> Inr s')))"

subsection \<open>Robots and fetching\<close>

definition can_fetch :: "world \<Rightarrow> crawler \<Rightarrow> string \<Rightarrow> bool" where
  "can_fetch w s url =
     (if robot_parser (conf s)
      then (case robots_can_fetch w url of None \<Rightarrow> True | Some b \<Rightarrow> b)
      else True)"

text \<open>\<open>fetch\<close>: the body of a 2xx answer; \<open>None\<close> for any other status and for an exception
  of the session.\<close>

definition fetch :: "world \<Rightarrow> crawler \<Rightarrow> string \<Rightarrow> string option \<times> crawler" where
  "fetch w s url =
     (let s' = s\<lparr>fetch_log := fetch_log s @ [url]\<rparr> in
      case http_get w (length (fetch_log s)) url of
        Response code body \<Rightarrow> (if 200 \<le> code \<and> code < 300 then Some body else None, s')
      | TransportError \<Rightarrow> (None, s'))"

subsection \<open>Link discovery\<close>

text \<open>
  The body of the loop of \<open>enqueue_links\<close> for one \<open>href\<close> value: the URL it appends to
  the queue, or \<open>None\<close> where it ends with \<open>continue\<close>.
\<close>

definition link_target :: "world \<Rightarrow> crawler \<Rightarrow> string \<Rightarrow> string \<Rightarrow> exn + string option" where
  "link_target w s base a =
     (let href = strip a in
      if startswith href ''mailto:'' \<or> startswith href ''javascript:'' then Inr None
      else
        (case urljoin w base href of
           Inl e \<Rightarrow> Inl e
         | Inr joined \<Rightarrow>
        (case normalize_url (lib w) joined of
           Inl e \<Rightarrow> Inl e
         | Inr abs_url \<Rightarrow>
             if abs_url = [] \<or> abs_url |\<in>| visited s then Inr None
             else
        (case is_within_base (lib w) abs_url (base_netloc (conf s)) (base_path (conf s)) of
           Inl e \<Rightarrow> Inl e
         | Inr inside \<Rightarrow>
             if \<not> inside then Inr None
             else
        (case urlparse (lib w) abs_url of
           Inl e \<Rightarrow> Inl e
         | Inr p \<Rightarrow>
             if lower (snd (splitext (path p))) \<notin> set HTML_EXTS then Inr None
             else if (case include_re (conf s) of None \<Rightarrow> False | Some search \<Rightarrow> \<not> search abs_url)
               then Inr None
             else if (case exclude_re (conf s) of None \<Rightarrow> False | Some search \<Rightarrow> search abs_url)
               then Inr None
             else Inr (Some abs_url))))))"

text \<open>The loop over the \<open>href\<close> values of the page's anchors.\<close>

fun enqueue_hrefs :: "world \<Rightarrow> string \<Rightarrow> string list \<Rightarrow> crawler \<Rightarrow> (exn \<times> crawler) + crawler" where
  "enqueue_hrefs w base [] s = Inr s"
| "enqueue_hrefs w base (a # as) s =
     (case link_target w s base a of
        Inl e \<Rightarrow> Inl (e, s)
      | Inr None \<Rightarrow> enqueue_hrefs w base as s
      | Inr (Some abs_url) \<Rightarrow> enqueue_hrefs w base as (s\<lparr>queue := queue s @ [abs_url]\<rparr>))"

definition enqueue_links :: "world \<Rightarrow> crawler \<Rightarrow> string \<Rightarrow> string \<Rightarrow> (exn \<times> crawler) + crawler" where
  "enqueue_links w s html base = enqueue_hrefs w base (soup_hrefs w html) s"

subsection \<open>Records\<close>

text \<open>\<open>str(n)\<close> for a natural number, as the f-strings format a page id or chunk index.\<close>

fun str_nat :: "nat \<Rightarrow> string" where
  "str_nat n = (if n < 10 then [char_of (48 + n)] else str_nat (n div 10) @ [char_of (48 + n mod 10)])"

declare str_nat.simps [simp del]

text \<open>
  The body of the loop of \<open>write_records\<close> for one element of \<open>enumerate(chunks)\<close>, on
  the crawler and the counter \<open>deduped\<close>. A chunk whose hash is in \<open>chunk_hashes\<close> is
  counted and skipped; any other is recorded in the set and written to both record files.
\<close>

definition write_chunk :: "world \<Rightarrow> nat \<Rightarrow> string \<Rightarrow> string \<Rightarrow> nat \<Rightarrow> nat \<times> string
                     \<Rightarrow> crawler \<times> nat \<Rightarrow> crawler \<times> nat" where
  "write_chunk w pid url title tot c acc =
     (let ci = fst c; ck = snd c; s = fst acc; deduped = snd acc;
          h = hash_text w ck; s0 = s\<lparr>hash_log := hash_log s @ [h]\<rparr> in
      if h |\<in>| chunk_hashes s0 then (s0, deduped + 1)
      else
        (let cid = (if tot > 1 then ''page-'' @ str_nat pid @ ''-c'' @ str_nat ci
                    else ''page-'' @ str_nat pid);
             full = \<lparr>fo_id = cid, fo_url = url, fo_title = title, fo_chunk_index = ci,
                      fo_chunk_count = tot, fo_contents = ck, fo_hash = h\<rparr>;
             mini = \<lparr>mo_id = cid, mo_contents = ck\<rparr>
         in (s0\<lparr>chunk_hashes := finsert h (chunk_hashes s0),
                 out := (out s0)\<lparr>fw_full := fw_full (out s0) @ [full],
                                   fw_min := fw_min (out s0) @ [mini]\<rparr>\<rparr>, deduped)))"

text \<open>The loop itself.\<close>

fun write_chunks :: "world \<Rightarrow> nat \<Rightarrow> string \<Rightarrow> string \<Rightarrow> nat \<Rightarrow> (nat \<times> string) list
                     \<Rightarrow> crawler \<times> nat \<Rightarrow> crawler \<times> nat" where
  "write_chunks w pid url title tot [] acc = acc"
| "write_chunks w pid url title tot (c # rest) acc =
     write_chunks w pid url title tot rest (write_chunk w pid url title tot c acc)"

text \<open>\<open>write_records\<close> returns the crawler and the pair \<open>(total, deduped)\<close>. The paths are
  \<open>None\<close> when the artifact is not saved.\<close>

definition write_records :: "world \<Rightarrow> crawler \<Rightarrow> nat \<Rightarrow> string \<Rightarrow> string \<Rightarrow> string
                      \<Rightarrow> string option \<Rightarrow> string option \<Rightarrow> crawler \<times> nat \<times> nat" where
  "write_records w s pid url title text html_path txt_path =
     (let chunks = (if text \<noteq> [] then chunk_text text (chunk_size (conf s)) (chunk_overlap (conf s)) else []) in
      if chunks = [] then (s, 0, 0)
      else
        (let tot = length chunks;
             (s1, deduped) = write_chunks w pid url title tot (enumerate 0 chunks) (s, 0);
             row = \<lparr>mr_id = ''page-'' @ str_nat pid, mr_url = url, mr_title = title,
                     mr_html_path = (case html_path of None \<Rightarrow> [] | Some p \<Rightarrow> p),
                     mr_txt_path = (case txt_path of None \<Rightarrow> [] | Some p \<Rightarrow> p),
                     mr_chars = length text\<rparr>
         in (s1\<lparr>out := (out s1)\<lparr>fw_mani := fw_mani (out s1) @ [Row row]\<rparr>\<rparr>, tot, deduped)))"

subsection \<open>Statistics and shutdown\<close>

definition write_stats :: "crawler \<Rightarrow> crawler" where
  "write_stats s = s\<lparr>out := (out s)\<lparr>out_stats := Some (stats s)\<rparr>\<rparr>"

text \<open>Closing the writers changes no file: every write was flushed.\<close>

definition close_writers :: "crawler \<Rightarrow> crawler" where
  "close_writers s = s"

text \<open>\<open>_handle_sigint\<close>, up to the exit with code 130.\<close>

definition handle_sigint :: "crawler \<Rightarrow> crawler" where
  "handle_sigint s = write_stats (close_writers s)"

subsection \<open>pathlib\<close>

text \<open>
  The components of a relative POSIX path as \<open>PurePosixPath\<close> parses it: the string is
  split at the slashes, and the empty pieces and the pieces \<open>.\<close> are dropped
  (\<open>for x in reversed(rel.split(sep)): if x and x != '.': parsed.append(x)\<close>).
\<close>

fun split_slash :: "string \<Rightarrow> string list" where
  "split_slash [] = [[]]"
| "split_slash (c # cs) =
     (if c = CHR ''/'' then [] # split_slash cs
      else (case split_slash cs of [] \<Rightarrow> [[c]] | h # t \<Rightarrow> (c # h) # t))"

definition path_parts :: "string \<Rightarrow> string list" where
  "path_parts p = filter (\<lambda>x. x \<noteq> [] \<and> x \<noteq> ''.'') (split_slash p)"

subsection \<open>The crawl loop\<close>

text \<open>
  \<open>Path(rel).with_suffix(".txt")\<close>: the suffix of the last component starts at its last
  dot, unless that dot is its first or last character. (pathlib also drops repeated
  slashes and \<open>.\<close> components; the paths are kept as computed here.)
\<close>

definition with_suffix_txt :: "string \<Rightarrow> string" where
  "with_suffix_txt rel =
     (let name = after_last CHR ''/'' rel;
          suf = (if CHR ''.'' \<in> set name then CHR ''.'' # after_last CHR ''.'' name else [])
      in if suf \<noteq> [] \<and> length suf < length name \<and> length suf > 1
         then take (length rel - length suf) rel @ ''.txt''
         else rel @ ''.txt'')"

text \<open>
  What a fetched page leaves behind, once its relative path, text and title are known:
  the artifacts are saved (a failed write is only logged), the records are written and
  the counters updated.
\<close>

definition page_outputs :: "world \<Rightarrow> crawler \<Rightarrow> string \<Rightarrow> string \<Rightarrow> string \<Rightarrow> string \<Rightarrow> string
                     \<Rightarrow> crawler" where
  "page_outputs w s url html rel_html text title =
     (let html_path = ''html/'' @ rel_html;
          txt_path = ''text/'' @ with_suffix_txt rel_html;
          s1 = (if save_html (conf s)
                then s\<lparr>out := (out s)\<lparr>out_html := (out_html (out s))(html_path \<mapsto> html)\<rparr>\<rparr>
                else s);
          s2 = (if save_text (conf s1)
                then s1\<lparr>out := (out s1)\<lparr>out_txt := (out_txt (out s1))(txt_path \<mapsto> text)\<rparr>\<rparr>
                else s1);
          r = write_records w s2 (page_id s2) url title text
                (if save_html (conf s2) then Some html_path else None)
                (if save_text (conf s2) then Some txt_path else None);
          s3 = fst r; tot = fst (snd r); deduped = snd (snd r)
      in s3\<lparr>stats := (stats s3)\<lparr>pages_fetched := pages_fetched (stats s3) + 1,
                                    chunks_written := chunks_written (stats s3) + tot,
                                    chunks_deduped := chunks_deduped (stats s3) + deduped\<rparr>\<rparr>)"

text \<open>
  The body of the loop from the successful fetch on (the page's HTML is \<open>html\<close>), in the
  order of the source: the relative path, the two \<open>mkdir\<close> calls, the extraction, the
  outputs, the links, the page id, the heartbeat's modulus and the sleep. An exception of
  \<open>url_to_relpath\<close>, of \<open>mkdir\<close>, of the extraction, of \<open>enqueue_links\<close>, of the modulus
  or of \<open>time.sleep\<close> is not caught here: the result carries it with the crawler at that
  moment.
\<close>

definition process_page :: "world \<Rightarrow> crawler \<Rightarrow> string \<Rightarrow> string \<Rightarrow> (exn \<times> crawler) + crawler" where
  "process_page w s url html =
     (case url_to_relpath (lib w) url (base_path (conf s)) of
        Inl e \<Rightarrow> Inl (e, s)
      | Inr rel_html \<Rightarrow>
     (case fs_mkdir w (length (fetch_log s)) (''html/'' @ rel_html) of
        Some e \<Rightarrow> Inl (e, s)
      | None \<Rightarrow>
     (case fs_mkdir w (length (fetch_log s)) (''text/'' @ with_suffix_txt rel_html) of
        Some e \<Rightarrow> Inl (e, s)
      | None \<Rightarrow>
     (case soup_text_title w html of
        None \<Rightarrow> Inl (SoupError, s)
      | Some (text, title) \<Rightarrow>
     (case enqueue_links w (page_outputs w s url html rel_html text title) html url of
        Inl e \<Rightarrow> Inl e
      | Inr s5 \<Rightarrow>
          (let s6 = s5\<lparr>page_id := page_id s5 + 1\<rparr> in
           if heartbeat_every (conf s6) = 0 then Inl (ZeroDivisionError, s6)
           else (case time_sleep w (delay (conf s6)) of
                   Some e \<Rightarrow> Inl (e, s6)
                 | None \<Rightarrow> Inr s6)))))))"

text \<open>One pass of the \<open>while\<close> loop of \<open>run\<close>. \<open>popleft\<close> on an empty queue raises
  \<open>IndexError\<close>; the loop's condition excludes it. After a failed fetch the pass sleeps
  before it ends, and an exception of \<open>time.sleep\<close> leaves the loop.\<close>

definition iteration :: "world \<Rightarrow> crawler \<Rightarrow> (exn \<times> crawler) + crawler" where
  "iteration w s =
     (case queue s of
        [] \<Rightarrow> Inl (IndexError, s)
      | url # rest \<Rightarrow>
          (let s1 = s\<lparr>queue := rest\<rparr> in
           if url |\<in>| visited s1 then Inr s1
           else if \<not> can_fetch w s1 url
             then Inr (s1\<lparr>stats := (stats s1)\<lparr>pages_skipped := pages_skipped (stats s1) + 1\<rparr>\<rparr>)
           else
             (let s2 = s1\<lparr>visited := finsert url (visited s1)\<rparr>;
                  s3 = s2\<lparr>stats := (stats s2)\<lparr>queue_peek := max (queue_peek (stats s2)) (length (queue s2))\<rparr>\<rparr>;
                  (html, s4) = fetch w s3 url
              in case html of
                   None \<Rightarrow>
                     (let s5 = s4\<lparr>stats := (stats s4)\<lparr>pages_failed := pages_failed (stats s4) + 1\<rparr>\<rparr>
                      in case time_sleep w (delay (conf s5)) of
                           Some e \<Rightarrow> Inl (e, s5)
                         | None \<Rightarrow> Inr s5)
                 | Some body \<Rightarrow> process_page w s4 url body)))"

text \<open>How the loop ends: it ran to its end, the interrupt handler ran, or an exception
  left \<open>run\<close>.\<close>

datatype ending = Finished | Interrupted | Raised exn

text \<open>
  \<open>run\<close> returns how it ended and the crawler at that moment. The interrupt signal, if
  any, arrives after \<open>sig\<close> passes of the loop, while the loop is still running (\<open>None\<close>:
  no signal).
\<close>

function run :: "world \<Rightarrow> nat option \<Rightarrow> crawler \<Rightarrow> ending \<times> crawler" where
  "run w sig s =
     (if queue s \<noteq> [] \<and> int (fcard (visited s)) < max_pages (conf s)
      then (if sig = Some 0 then (Interrupted, handle_sigint s)
            else (case iteration w s of
                    Inl (e, s') \<Rightarrow> (Raised e, s')
                  | Inr s' \<Rightarrow> run w (map_option (\<lambda>n. n - 1) sig) s'))
      else (Finished, close_writers (write_stats s)))"
  by pat_completeness auto

subsection \<open>The entry point\<close>

text \<open>
  \<open>main\<close>: a failed constructor gives the exception and the output directory as it
  left it; otherwise the result of \<open>run\<close>. \<open>except Exception\<close> turns every exception
  into exit code 1; the interrupt handler exits with 130.
\<close>

definition main :: "world \<Rightarrow> args \<Rightarrow> nat option \<Rightarrow> disk \<Rightarrow> (exn \<times> disk) + (ending \<times> crawler)" where
  "main w a sig d =
     (case Crawler_init w a d of
        Inl ed \<Rightarrow> Inl ed
      | Inr s \<Rightarrow> Inr (run w sig s))"

definition exit_code :: "(exn \<times> disk) + (ending \<times> crawler) \<Rightarrow> nat" where
  "exit_code r =
     (case r of
        Inl ed \<Rightarrow> 1
      | Inr (Finished, s) \<Rightarrow> 0
      | Inr (Interrupted, s) \<Rightarrow> 130
      | Inr (Raised e, s) \<Rightarrow> 1)"

definition final_disk :: "(exn \<times> disk) + (ending \<times> crawler) \<Rightarrow> disk" where
  "final_disk r = (case r of Inl (e, d) \<Rightarrow> d | Inr (how, s) \<Rightarrow> disk_of (out s))"

subsection \<open>What a stretch of the run adds to the record files\<close>


subsection \<open>Example inputs\<close>

text \<open>A small site under \<open>http://h/doc/\<close>, used to evaluate the theorems on concrete runs.
  The page \<open>B\<close> repeats the text of \<open>A\<close>, and \<open>D\<close> that of \<open>C\<close>; \<open>E\<close> has no text; \<open>X\<close>
  breaks the extraction; the seed page links to \<open>b\<close> twice, and robots.txt disallows \<open>c\<close>.\<close>

definition example_site :: world where
  "example_site =
     \<lparr>lib = \<lparr>check_bracketed_host = (\<lambda>h. True), checknetloc = (\<lambda>n. True)\<rparr>,
      http_get = (\<lambda>n u. if u = ''http://h/doc/'' then Response 200 ''A''
                        else if u = ''http://h/doc/b/'' then Response 200 ''B''
                        else if u = ''http://h/doc/c/'' then Response 200 ''C''
                        else if u = ''http://h/doc/d/'' then Response 200 ''D''
                        else if u = ''http://h/doc/e/'' then Response 200 ''E''
                        else if u = ''http://h/doc/x/'' then Response 200 ''X''
                        else if u = ''http://h/doc/down/'' then TransportError
                        else Response 404 []),
      robots_can_fetch = (\<lambda>u. Some (u \<noteq> ''http://h/doc/c/'')),
      soup_text_title = (\<lambda>html. if html = ''A'' then Some (''same text'', ''Title A'')
                        else if html = ''B'' then Some (''same text'', ''Title B'')
                        else if html = ''C'' then Some (''other text'', ''Title C'')
                        else if html = ''D'' then Some (''other text'', ''Title D'')
                        else if html = ''X'' then None
                        else Some ([], ''Empty'')),
      soup_hrefs = (\<lambda>html. if html = ''A''
                        then [''http://h/doc/b/'', ''http://h/doc/b/'', ''http://h/doc/c/'',
                              ''mailto:me@h'', ''http://h/other/'']
                        else []),
      urljoin = (\<lambda>base href. Inr href),
      hash_text = (\<lambda>ck. ck),
      sitemap_locs = (\<lambda>u. [''http://h/doc/'', ''http://h/doc/b/'', ''http://h/doc/c/'']),
      fs_mkdir = (\<lambda>n p. None),
      time_sleep = (\<lambda>d. case d of
                        Finite x \<Rightarrow> if x < 0 then Some ValueError
                                    else if 9223372036 \<le> x then Some OverflowError else None
                      | NaN \<Rightarrow> Some ValueError
                      | PosInf \<Rightarrow> Some OverflowError
                      | NegInf \<Rightarrow> Some OverflowError)\<rparr>"

definition example_args :: args where
  "example_args =
     \<lparr>arg_base_url = ''http://h/doc/'', arg_max_pages = 2, arg_delay = Finite (1 / 2),
      arg_include_re = None, arg_exclude_re = None,
      arg_respect_robots = False, arg_use_sitemap = True, arg_resume = False,
      arg_chunk_size = 0, arg_chunk_overlap = 120, arg_heartbeat_every = 10,
      arg_save_html = False, arg_save_text = False\<rparr>"

definition empty_disk :: disk where
  "empty_disk = \<lparr>corpus_full = None, corpus_min = None, manifest_csv = None,
     stats_json = None, html_files = Map.empty, text_files = Map.empty\<rparr>"

text \<open>A crawler whose queue holds one URL twice and whose fetches all fail.\<close>

definition failing_crawler :: crawler where
  "failing_crawler =
     \<lparr>conf = \<lparr>base_url = ''http://h/doc/'', base_netloc = ''h'', base_path = ''/doc/'',
               max_pages = 5, delay = Finite (1 / 2), include_re = None, exclude_re = None, robot_parser = False,
               use_sitemap = False, chunk_size = 0, chunk_overlap = 120, heartbeat_every = 10,
               save_html = False, save_text = False\<rparr>,
      visited = {||},
      queue = [''http://h/doc/down/'', ''http://h/doc/down/'', ''http://h/doc/gone/''],
      page_id = 0,
      stats = \<lparr>pages_fetched = 0, pages_skipped = 0, pages_failed = 0,
                chunks_written = 0, chunks_deduped = 0, queue_peek = 0\<rparr>,
      chunk_hashes = {||},
      out = \<lparr>fw_full = [], fw_min = [], fw_mani = [Header], out_stats = None,
              out_html = Map.empty, out_txt = Map.empty\<rparr>,
      fetch_log = [], hash_log = []\<rparr>"

text \<open>A crawler as the constructor leaves it on resume, when the manifest lists two URLs
  and \<open>max_pages\<close> is 1.\<close>

definition resumed_crawler :: crawler where
  "resumed_crawler =
     failing_crawler\<lparr>conf := (conf failing_crawler)\<lparr>max_pages := 1\<rparr>,
                     visited := {|''http://h/doc/'', ''http://h/doc/b/''|},
                     queue := [''http://h/doc/'']\<rparr>"

text \<open>Command lines with a base URL of a scheme the crawler refuses, and with a base URL
  whose server is down.\<close>

definition bad_args :: args where
  "bad_args = example_args\<lparr>arg_base_url := ''ftp://h/doc/''\<rparr>"

definition down_args :: args where
  "down_args = example_args\<lparr>arg_base_url := ''http://h/doc/down'', arg_use_sitemap := False\<rparr>"

text \<open>A crawler whose next URL serves a page on which the extraction raises.\<close>

definition x_crawler :: crawler where
  "x_crawler = failing_crawler\<lparr>queue := [''http://h/doc/x/'', ''http://h/doc/gone/'']\<rparr>"

text \<open>The same crawler as \<open>failing_crawler\<close> with \<open>--delay -1\<close>.\<close>

definition impatient_crawler :: crawler where
  "impatient_crawler = failing_crawler\<lparr>conf := (conf failing_crawler)\<lparr>delay := Finite (- 1)\<rparr>\<rparr>"

text \<open>The same crawler with \<open>--save_html\<close> and \<open>--save_text\<close>.\<close>

definition saving_crawler :: crawler where
  "saving_crawler =
     failing_crawler\<lparr>conf := (conf failing_crawler)\<lparr>save_html := True, save_text := True\<rparr>\<rparr>"



text \<open>The command lines of a first run of two pages and of a run resumed after it.\<close>

definition first_args :: args where
  "first_args = example_args\<lparr>arg_chunk_size := 1200\<rparr>"

definition resume_args :: args where
  "resume_args = first_args\<lparr>arg_resume := True, arg_max_pages := 3\<rparr>"


section \<open>Frame properties and termination of the crawl loop\<close>

text \<open>What each part of a pass leaves unchanged; with it, every pass either shortens the
  queue or adds one URL to \<open>visited\<close>, which \<open>max_pages\<close> bounds, so \<open>run\<close> always returns.\<close>

lemma queue_app_nil: "\<exists>q. s = s\<lparr>queue := queue s @ q\<rparr>"
  by (rule exI[of _ "[]"]) simp

lemma enqueue_hrefs_frame:
  "(enqueue_hrefs w base as s = Inr s' \<longrightarrow> (\<exists>q. s' = s\<lparr>queue := queue s @ q\<rparr>)) \<and>
   (enqueue_hrefs w base as s = Inl (e, s') \<longrightarrow> (\<exists>q. s' = s\<lparr>queue := queue s @ q\<rparr>))"
proof (induction as arbitrary: s)
  case Nil
  show ?case using queue_app_nil[of s] by auto
next
  case (Cons a as)
  show ?case
  proof (cases "link_target w s base a")
    case (Inl x)
    with queue_app_nil[of s] show ?thesis by auto
  next
    case (Inr t)
    show ?thesis
    proof (cases t)
      case None
      with Inr Cons.IH[of s] show ?thesis by simp
    next
      case (Some u)
      have "\<And>q. s\<lparr>queue := queue s @ [u]\<rparr>\<lparr>queue := queue (s\<lparr>queue := queue s @ [u]\<rparr>) @ q\<rparr>
        = s\<lparr>queue := queue s @ (u # q)\<rparr>" by simp
      with Inr Some Cons.IH[of "s\<lparr>queue := queue s @ [u]\<rparr>"] show ?thesis
        by (simp del: crawler.update_convs) metis
    qed
  qed
qed

lemma write_chunk_frame:
  "write_chunk w pid url title tot c (s, d) = (s', d') \<Longrightarrow>
     conf s' = conf s \<and> visited s' = visited s \<and> queue s' = queue s \<and> page_id s' = page_id s
     \<and> stats s' = stats s \<and> fetch_log s' = fetch_log s
     \<and> fw_mani (out s') = fw_mani (out s) \<and> out_stats (out s') = out_stats (out s)
     \<and> out_html (out s') = out_html (out s) \<and> out_txt (out s') = out_txt (out s)"
  unfolding write_chunk_def Let_def
  by (cases "hash_text w (snd c) |\<in>| chunk_hashes s") auto

lemma write_chunks_frame:
  "write_chunks w pid url title tot cs (s, d) = (s', d') \<Longrightarrow>
     conf s' = conf s \<and> visited s' = visited s \<and> queue s' = queue s \<and> page_id s' = page_id s
     \<and> stats s' = stats s \<and> fetch_log s' = fetch_log s
     \<and> fw_mani (out s') = fw_mani (out s) \<and> out_stats (out s') = out_stats (out s)
     \<and> out_html (out s') = out_html (out s) \<and> out_txt (out s') = out_txt (out s)"
proof (induction cs arbitrary: s d)
  case Nil
  then show ?case by simp
next
  case (Cons c cs)
  obtain s1 d1 where s1: "write_chunk w pid url title tot c (s, d) = (s1, d1)"
    by (cases "write_chunk w pid url title tot c (s, d)")
  with Cons.prems have "write_chunks w pid url title tot cs (s1, d1) = (s', d')" by simp
  from Cons.IH[OF this] write_chunk_frame[OF s1] show ?case by simp
qed

lemma write_records_frame:
  "write_records w s pid url title text hp tp = (s', t, d) \<Longrightarrow>
     conf s' = conf s \<and> visited s' = visited s \<and> queue s' = queue s \<and> page_id s' = page_id s
     \<and> stats s' = stats s \<and> fetch_log s' = fetch_log s
     \<and> out_stats (out s') = out_stats (out s)
     \<and> out_html (out s') = out_html (out s) \<and> out_txt (out s') = out_txt (out s)"
proof -
  define chunks where "chunks = (if text \<noteq> [] then chunk_text text (chunk_size (conf s)) (chunk_overlap (conf s)) else [])"
  show ?thesis if a: "write_records w s pid url title text hp tp = (s', t, d)"
  proof (cases "chunks = []")
    case True
    with a show ?thesis by (simp add: write_records_def chunks_def[symmetric])
  next
    case False
    obtain s1 d1 where s1: "write_chunks w pid url title (length chunks) (enumerate 0 chunks) (s, 0) = (s1, d1)"
      by (cases "write_chunks w pid url title (length chunks) (enumerate 0 chunks) (s, 0)")
    with a False have "s' = s1\<lparr>out := (out s1)\<lparr>fw_mani := fw_mani (out s1) @
        [Row \<lparr>mr_id = ''page-'' @ str_nat pid, mr_url = url, mr_title = title,
                     mr_html_path = (case hp of None \<Rightarrow> [] | Some p \<Rightarrow> p),
                     mr_txt_path = (case tp of None \<Rightarrow> [] | Some p \<Rightarrow> p),
                     mr_chars = length text\<rparr>]\<rparr>\<rparr>"
      by (simp add: write_records_def chunks_def[symmetric] Let_def)
    with write_chunks_frame[OF s1] show ?thesis by simp
  qed
qed
lemma page_outputs_frame:
  "conf (page_outputs w s url html rel text title) = conf s \<and>
   visited (page_outputs w s url html rel text title) = visited s \<and>
   queue (page_outputs w s url html rel text title) = queue s \<and>
   page_id (page_outputs w s url html rel text title) = page_id s \<and>
   fetch_log (page_outputs w s url html rel text title) = fetch_log s \<and>
   out_stats (out (page_outputs w s url html rel text title)) = out_stats (out s)"
proof -
  define s1 where "s1 = (if save_html (conf s)
                then s\<lparr>out := (out s)\<lparr>out_html := (out_html (out s))((''html/'' @ rel) \<mapsto> html)\<rparr>\<rparr>
                else s)"
  define s2 where "s2 = (if save_text (conf s1)
                then s1\<lparr>out := (out s1)\<lparr>out_txt := (out_txt (out s1))((''text/'' @ with_suffix_txt rel) \<mapsto> text)\<rparr>\<rparr>
                else s1)"
  define r where "r = write_records w s2 (page_id s2) url title text
                (if save_html (conf s2) then Some (''html/'' @ rel) else None)
                (if save_text (conf s2) then Some (''text/'' @ with_suffix_txt rel) else None)"
  have p: "page_outputs w s url html rel text title =
     (fst r)\<lparr>stats := (stats (fst r))\<lparr>pages_fetched := pages_fetched (stats (fst r)) + 1,
                                    chunks_written := chunks_written (stats (fst r)) + fst (snd r),
                                    chunks_deduped := chunks_deduped (stats (fst r)) + snd (snd r)\<rparr>\<rparr>"
    unfolding page_outputs_def Let_def r_def s2_def s1_def ..
  have f1: "conf s1 = conf s \<and> visited s1 = visited s \<and> queue s1 = queue s \<and> page_id s1 = page_id s
     \<and> fetch_log s1 = fetch_log s \<and> out_stats (out s1) = out_stats (out s)"
    by (simp add: s1_def)
  have f2: "conf s2 = conf s1 \<and> visited s2 = visited s1 \<and> queue s2 = queue s1 \<and> page_id s2 = page_id s1
     \<and> fetch_log s2 = fetch_log s1 \<and> out_stats (out s2) = out_stats (out s1)"
    by (simp add: s2_def)
  have "write_records w s2 (page_id s2) url title text
                (if save_html (conf s2) then Some (''html/'' @ rel) else None)
                (if save_text (conf s2) then Some (''text/'' @ with_suffix_txt rel) else None)
          = (fst r, fst (snd r), snd (snd r))" by (simp add: r_def)
  from write_records_frame[OF this] f1 f2 show ?thesis
    by (simp add: p r_def[symmetric])
qed

lemma process_page_frame:
  assumes "process_page w s url html = Inr s' \<or> process_page w s url html = Inl (e, s')"
  shows "conf s' = conf s \<and> visited s' = visited s \<and> fetch_log s' = fetch_log s
     \<and> out_stats (out s') = out_stats (out s) \<and> (\<exists>q. queue s' = queue s @ q)"
proof (cases "url_to_relpath (lib w) url (base_path (conf s))")
  case (Inl x)
  with assms have "s' = s" by (auto simp: process_page_def)
  then show ?thesis by simp
next
  case (Inr rel)
  note rel = Inr
  show ?thesis
  proof (cases "fs_mkdir w (length (fetch_log s)) (''html/'' @ rel)")
    case (Some x)
    with rel assms have "s' = s" by (auto simp: process_page_def)
    then show ?thesis by simp
  next
    case m1: None
    show ?thesis
    proof (cases "fs_mkdir w (length (fetch_log s)) (''text/'' @ with_suffix_txt rel)")
      case (Some x)
      with rel m1 assms have "s' = s" by (auto simp: process_page_def)
      then show ?thesis by simp
    next
      case m2: None
      show ?thesis
      proof (cases "soup_text_title w html")
        case None
        with rel m1 m2 assms have "s' = s" by (auto simp: process_page_def)
        then show ?thesis by simp
      next
        case (Some tt)
        obtain tx ti where tt: "tt = (tx, ti)" by (cases tt)
        define s4 where "s4 = page_outputs w s url html rel tx ti"
        note po = page_outputs_frame[of w s url html rel tx ti, folded s4_def]
        have pp: "process_page w s url html =
           (case enqueue_hrefs w url (soup_hrefs w html) s4 of
              Inl e \<Rightarrow> Inl e
            | Inr s5 \<Rightarrow> if heartbeat_every (conf s5) = 0
                         then Inl (ZeroDivisionError, s5\<lparr>page_id := page_id s5 + 1\<rparr>)
                         else (case time_sleep w (delay (conf s5)) of
                                 Some e \<Rightarrow> Inl (e, s5\<lparr>page_id := page_id s5 + 1\<rparr>)
                               | None \<Rightarrow> Inr (s5\<lparr>page_id := page_id s5 + 1\<rparr>)))"
          using rel m1 m2 Some tt
          by (simp add: process_page_def enqueue_links_def s4_def Let_def split: sum.splits option.splits)
        have fin: "conf s' = conf s4 \<and> visited s' = visited s4 \<and> fetch_log s' = fetch_log s4
            \<and> out_stats (out s') = out_stats (out s4) \<and> (\<exists>q. queue s' = queue s4 @ q)"
        proof (cases "enqueue_hrefs w url (soup_hrefs w html) s4")
          case (Inl x)
          with pp assms have x: "x = (e, s')" by simp
          from enqueue_hrefs_frame[of w url "soup_hrefs w html" s4 s' e] Inl x
          obtain q where q: "s' = s4\<lparr>queue := queue s4 @ q\<rparr>" by auto
          have "queue s' = queue s4 @ q" by (subst q) simp
          then have "\<exists>q. queue s' = queue s4 @ q" ..
          moreover have "conf s' = conf s4 \<and> visited s' = visited s4 \<and> fetch_log s' = fetch_log s4
            \<and> out_stats (out s') = out_stats (out s4)" by (subst (1 2 3 4) q) simp
          ultimately show ?thesis by simp
        next
          case (Inr s5)
          from enqueue_hrefs_frame[of w url "soup_hrefs w html" s4 s5] Inr
          obtain q where q: "s5 = s4\<lparr>queue := queue s4 @ q\<rparr>" by auto
          from pp Inr assms have s': "s' = s5\<lparr>page_id := page_id s5 + 1\<rparr>"
            by (simp split: if_splits option.splits)
          have "queue s5 = queue s4 @ q" by (subst q) simp
          then have "queue s' = queue s4 @ q" by (simp add: s')
          then have "\<exists>q. queue s' = queue s4 @ q" ..
          moreover have "conf s5 = conf s4 \<and> visited s5 = visited s4 \<and> fetch_log s5 = fetch_log s4
            \<and> out_stats (out s5) = out_stats (out s4)" by (subst (1 2 3 4) q) simp
          ultimately show ?thesis by (simp add: s')
        qed
        with po show ?thesis by simp
      qed
    qed
  qed
qed

lemma fetch_frame:
  "fetch w s url = (r, s') \<Longrightarrow> s' = s\<lparr>fetch_log := fetch_log s @ [url]\<rparr>"
  by (auto simp: fetch_def Let_def split: response.splits)

lemma iteration_step:
  assumes q: "queue s = url # rest"
    and it: "iteration w s = Inr s' \<or> iteration w s = Inl (e, s')"
  shows "conf s' = conf s \<and> out_stats (out s') = out_stats (out s) \<and>
     ((visited s' = visited s \<and> fetch_log s' = fetch_log s \<and> queue s' = rest) \<or>
      (url |\<notin>| visited s \<and> visited s' = finsert url (visited s)
        \<and> fetch_log s' = fetch_log s @ [url] \<and> (\<exists>q. queue s' = rest @ q)))"
proof (cases "url |\<in>| visited s")
  case True
  with q it have "s' = s\<lparr>queue := rest\<rparr>" by (auto simp: iteration_def)
  then show ?thesis by simp
next
  case nv: False
  show ?thesis
  proof (cases "can_fetch w (s\<lparr>queue := rest\<rparr>) url")
    case False
    with q it nv have "s' = s\<lparr>queue := rest,
        stats := (stats s)\<lparr>pages_skipped := pages_skipped (stats s) + 1\<rparr>\<rparr>"
      by (auto simp: iteration_def Let_def)
    then show ?thesis by simp
  next
    case cf: True
    define s3 where "s3 = s\<lparr>queue := rest, visited := finsert url (visited s),
        stats := (stats s)\<lparr>queue_peek := max (queue_peek (stats s)) (length rest)\<rparr>\<rparr>"
    obtain r s4 where f: "fetch w s3 url = (r, s4)" by (cases "fetch w s3 url")
    from fetch_frame[OF f] have s4: "s4 = s3\<lparr>fetch_log := fetch_log s3 @ [url]\<rparr>" .
    have s4f: "conf s4 = conf s \<and> out_stats (out s4) = out_stats (out s)
        \<and> visited s4 = finsert url (visited s) \<and> fetch_log s4 = fetch_log s @ [url]
        \<and> queue s4 = rest"
      by (simp add: s4 s3_def)
    have itd: "iteration w s = (case r of
         None \<Rightarrow>
           (case time_sleep w (delay (conf s4)) of
              Some e \<Rightarrow> Inl (e, s4\<lparr>stats := (stats s4)\<lparr>pages_failed := pages_failed (stats s4) + 1\<rparr>\<rparr>)
            | None \<Rightarrow> Inr (s4\<lparr>stats := (stats s4)\<lparr>pages_failed := pages_failed (stats s4) + 1\<rparr>\<rparr>))
       | Some body \<Rightarrow> process_page w s4 url body)"
      using q nv cf f by (simp add: iteration_def Let_def s3_def split: option.splits)
    show ?thesis
    proof (cases r)
      case None
      with itd it have "s' = s4\<lparr>stats := (stats s4)\<lparr>pages_failed := pages_failed (stats s4) + 1\<rparr>\<rparr>"
        by (auto split: option.splits)
      with s4f nv show ?thesis by simp
    next
      case (Some body)
      with itd it have "process_page w s4 url body = Inr s' \<or> process_page w s4 url body = Inl (e, s')"
        by simp
      from process_page_frame[OF this] s4f nv show ?thesis by simp
    qed
  qed
qed

termination run
proof (relation "inv_image (less_than <*lex*> less_than)
    (\<lambda>(w, sig, s). (nat (max_pages (conf s) - int (fcard (visited s))), length (queue s)))")
  show "wf (inv_image (less_than <*lex*> less_than)
    (\<lambda>(w, sig, s). (nat (max_pages (conf s) - int (fcard (visited s))), length (queue s))))"
    by (intro wf_inv_image wf_lex_prod wf_less_than)
next
  fix w :: world and sig :: "nat option" and s s' :: crawler
  assume c: "queue s \<noteq> [] \<and> int (fcard (visited s)) < max_pages (conf s)"
    and it: "iteration w s = Inr s'"
  from c obtain url rest where q: "queue s = url # rest" by (cases "queue s") auto
  from iteration_step[OF q, of w s'] it
  have st: "conf s' = conf s \<and>
     ((visited s' = visited s \<and> queue s' = rest) \<or>
      (url |\<notin>| visited s \<and> visited s' = finsert url (visited s)))" by auto
  then show "((w, map_option (\<lambda>n. n - 1) sig, s'), (w, sig, s))
       \<in> inv_image (less_than <*lex*> less_than)
    (\<lambda>(w, sig, s). (nat (max_pages (conf s) - int (fcard (visited s))), length (queue s)))"
    using c q by (auto simp: fcard_finsert_disjoint)
qed

declare run.simps [simp del]

section \<open>Properties of the crawl loop\<close>

lemma handle_sigint_fields:
  "conf (handle_sigint s) = conf s" "visited (handle_sigint s) = visited s"
  "fetch_log (handle_sigint s) = fetch_log s" "hash_log (handle_sigint s) = hash_log s"
  "chunk_hashes (handle_sigint s) = chunk_hashes s" "stats (handle_sigint s) = stats s"
  "fw_full (out (handle_sigint s)) = fw_full (out s)" "fw_min (out (handle_sigint s)) = fw_min (out s)"
  "fw_mani (out (handle_sigint s)) = fw_mani (out s)"
  "out_stats (out (handle_sigint s)) = Some (stats s)"
  by (simp_all add: handle_sigint_def write_stats_def close_writers_def)

lemma finish_fields:
  "conf (close_writers (write_stats s)) = conf s" "visited (close_writers (write_stats s)) = visited s"
  "fetch_log (close_writers (write_stats s)) = fetch_log s" "hash_log (close_writers (write_stats s)) = hash_log s"
  "chunk_hashes (close_writers (write_stats s)) = chunk_hashes s" "stats (close_writers (write_stats s)) = stats s"
  "fw_full (out (close_writers (write_stats s))) = fw_full (out s)"
  "fw_min (out (close_writers (write_stats s))) = fw_min (out s)"
  "fw_mani (out (close_writers (write_stats s))) = fw_mani (out s)"
  "out_stats (out (close_writers (write_stats s))) = Some (stats s)"
  by (simp_all add: write_stats_def close_writers_def)

text \<open>The four ways one call of \<open>run\<close> goes on.\<close>

lemma run_cases:
  obtains
    (finished) "\<not> (queue s \<noteq> [] \<and> int (fcard (visited s)) < max_pages (conf s))"
      "run w sig s = (Finished, close_writers (write_stats s))"
  | (interrupted) "queue s \<noteq> []" "int (fcard (visited s)) < max_pages (conf s)" "sig = Some 0"
      "run w sig s = (Interrupted, handle_sigint s)"
  | (raised) e s' where "queue s \<noteq> []" "int (fcard (visited s)) < max_pages (conf s)" "sig \<noteq> Some 0"
      "iteration w s = Inl (e, s')" "run w sig s = (Raised e, s')"
  | (continued) s' where "queue s \<noteq> []" "int (fcard (visited s)) < max_pages (conf s)" "sig \<noteq> Some 0"
      "iteration w s = Inr s'" "run w sig s = run w (map_option (\<lambda>n. n - 1) sig) s'"
proof (cases "queue s \<noteq> [] \<and> int (fcard (visited s)) < max_pages (conf s)")
  case False
  then have "run w sig s = (Finished, close_writers (write_stats s))"
    by (subst run.simps) auto
  with False show ?thesis using finished by simp
next
  case c: True
  show ?thesis
  proof (cases "sig = Some 0")
    case True
    with c have "run w sig s = (Interrupted, handle_sigint s)"
      by (subst run.simps) simp
    with c True show ?thesis using interrupted by simp
  next
    case ns: False
    show ?thesis
    proof (cases "iteration w s")
      case (Inl x)
      obtain e s' where "x = (e, s')" by (cases x)
      with Inl c ns have "run w sig s = (Raised e, s')" by (subst run.simps) simp
      with c ns Inl \<open>x = (e, s')\<close> show ?thesis using raised by simp
    next
      case (Inr s')
      with c ns have "run w sig s = run w (map_option (\<lambda>n. n - 1) sig) s'" by (subst run.simps) simp
      with c ns Inr show ?thesis using continued by simp
    qed
  qed
qed

lemma iteration_grows:
  assumes q: "queue s \<noteq> []" and it: "iteration w s = Inr s' \<or> iteration w s = Inl (e, s')"
  shows "conf s' = conf s \<and> (\<exists>new. fetch_log s' = fetch_log s @ new \<and> distinct new
      \<and> fset_of_list new |\<inter>| visited s = {||} \<and> visited s' = visited s |\<union>| fset_of_list new
      \<and> length new \<le> 1)"
proof -
  from q obtain url rest where qq: "queue s = url # rest" by (cases "queue s") auto
  from iteration_step[OF qq it] have c: "conf s' = conf s"
    and d: "(visited s' = visited s \<and> fetch_log s' = fetch_log s) \<or>
      (url |\<notin>| visited s \<and> visited s' = finsert url (visited s)
        \<and> fetch_log s' = fetch_log s @ [url])" by auto
  from d have "\<exists>new. fetch_log s' = fetch_log s @ new \<and> distinct new
      \<and> fset_of_list new |\<inter>| visited s = {||} \<and> visited s' = visited s |\<union>| fset_of_list new
      \<and> length new \<le> 1"
  proof
    assume "visited s' = visited s \<and> fetch_log s' = fetch_log s"
    then show ?thesis by (intro exI[of _ "[]"]) simp
  next
    assume "url |\<notin>| visited s \<and> visited s' = finsert url (visited s)
        \<and> fetch_log s' = fetch_log s @ [url]"
    then show ?thesis by (intro exI[of _ "[url]"]) auto
  qed
  with c show ?thesis by simp
qed

lemma run_grows:
  "conf (snd (run w sig s)) = conf s \<and>
   (\<exists>new. fetch_log (snd (run w sig s)) = fetch_log s @ new \<and> distinct new
      \<and> fset_of_list new |\<inter>| visited s = {||}
      \<and> visited (snd (run w sig s)) = visited s |\<union>| fset_of_list new)"
proof (induction w sig s rule: run.induct)
  case (1 w sig s)
  show ?case
  proof (cases rule: run_cases[of s w sig])
    case finished
    then show ?thesis by (simp add: finish_fields exI[of _ "[]"])
  next
    case interrupted
    then show ?thesis by (simp add: handle_sigint_fields exI[of _ "[]"])
  next
    case (raised e s')
    from iteration_grows[OF raised(1), of w s' e] raised(4,5) show ?thesis by auto
  next
    case (continued s')
    from iteration_grows[OF continued(1), of w s'] continued(4)
    obtain n1 where c1: "conf s' = conf s" and n1: "fetch_log s' = fetch_log s @ n1" "distinct n1"
      "fset_of_list n1 |\<inter>| visited s = {||}" "visited s' = visited s |\<union>| fset_of_list n1"
      by auto
    from "1.IH"[OF _ _ continued(4)] continued(1,2,3)
    obtain n2 where c2: "conf (snd (run w sig s)) = conf s'"
      and n2: "fetch_log (snd (run w sig s)) = fetch_log s' @ n2" "distinct n2"
      "fset_of_list n2 |\<inter>| visited s' = {||}"
      "visited (snd (run w sig s)) = visited s' |\<union>| fset_of_list n2"
      unfolding continued(5) by auto
    have a: "fetch_log (snd (run w sig s)) = fetch_log s @ (n1 @ n2)" using n1(1) n2(1) by simp
    have d1: "x \<in> set n1 \<Longrightarrow> x |\<notin>| visited s" for x
    proof
      assume "x \<in> set n1" "x |\<in>| visited s"
      then have "x |\<in>| fset_of_list n1 |\<inter>| visited s" by (simp add: fset_of_list_elem)
      with n1(3) show False by simp
    qed
    have d2: "x \<in> set n2 \<Longrightarrow> x |\<notin>| visited s'" for x
    proof
      assume "x \<in> set n2" "x |\<in>| visited s'"
      then have "x |\<in>| fset_of_list n2 |\<inter>| visited s'" by (simp add: fset_of_list_elem)
      with n2(3) show False by simp
    qed
    have d3: "x \<in> set n2 \<Longrightarrow> x |\<notin>| visited s \<and> x \<notin> set n1" for x
      using d2[of x] n1(4) by (simp add: fset_of_list_elem)
    have b: "distinct (n1 @ n2)" using n1(2) n2(2) d3 by auto
    have c: "fset_of_list (n1 @ n2) |\<inter>| visited s = {||}"
    proof (rule fset_eqI)
      fix x show "(x |\<in>| fset_of_list (n1 @ n2) |\<inter>| visited s) = (x |\<in>| {||})"
        using d1[of x] d3[of x] by (auto simp: fset_of_list_elem)
    qed
    have d: "visited (snd (run w sig s)) = visited s |\<union>| fset_of_list (n1 @ n2)"
      by (simp add: n2(4) n1(4) fset_of_list_append funion_assoc)
    have "conf (snd (run w sig s)) = conf s" using c1 c2 by simp
    moreover have "\<exists>new. fetch_log (snd (run w sig s)) = fetch_log s @ new \<and> distinct new
      \<and> fset_of_list new |\<inter>| visited s = {||}
      \<and> visited (snd (run w sig s)) = visited s |\<union>| fset_of_list new"
      using a b c d by (intro exI[of _ "n1 @ n2"] conjI)
    ultimately show ?thesis ..
  qed
qed

lemma run_visited_bound:
  "int (fcard (visited (snd (run w sig s)))) \<le> max (max_pages (conf s)) (int (fcard (visited s)))"
proof (induction w sig s rule: run.induct)
  case (1 w sig s)
  show ?case
  proof (cases rule: run_cases[of s w sig])
    case finished
    then show ?thesis by (simp add: finish_fields)
  next
    case interrupted
    then show ?thesis by (simp add: handle_sigint_fields)
  next
    case (raised e s')
    from iteration_grows[OF raised(1), of w s' e] raised(4)
    obtain new where "visited s' = visited s |\<union>| fset_of_list new" "length new \<le> 1" by auto
    then have "fcard (visited s') \<le> fcard (visited s) + 1"
      by (cases new) (auto simp: fcard_finsert_if)
    with raised show ?thesis by simp
  next
    case (continued s')
    from iteration_grows[OF continued(1), of w s'] continued(4)
    obtain new where c: "conf s' = conf s" and "visited s' = visited s |\<union>| fset_of_list new" "length new \<le> 1" by auto
    then have "fcard (visited s') \<le> fcard (visited s) + 1"
      by (cases new) (auto simp: fcard_finsert_if)
    moreover from "1.IH"[OF _ _ continued(4)] continued(1,2,3)
    have "int (fcard (visited (snd (run w sig s)))) \<le> max (max_pages (conf s')) (int (fcard (visited s')))"
      unfolding continued(5) by auto
    ultimately show ?thesis using continued(2) c by auto
  qed
qed

subsection \<open>No URL is fetched twice\<close>

text \<open>
  The claim of C1 as stated, refuted: a crawler resumed with two URLs in the manifest and
  \<open>max_pages = 1\<close> ends its run with more visited URLs than \<open>max_pages\<close>.
\<close>

theorem visited_bound_counterexample:
  "\<not> int (fcard (visited (snd (run example_site None resumed_crawler))))
       \<le> max_pages (conf resumed_crawler)"
  by (subst run.simps)
     (simp add: resumed_crawler_def failing_crawler_def write_stats_def close_writers_def
        fcard_finsert_if fcard_fempty)

text \<open>
  C1, amended. In every run, whatever its end, the URLs fetched by the loop are pairwise
  distinct, none of them was in \<open>visited\<close> when the run started, and \<open>visited\<close> ends as
  its initial value plus exactly the fetched URLs; the number of visited URLs never exceeds
  the larger of \<open>max_pages\<close> and the number of URLs in \<open>visited\<close> at the start (which is 0
  unless the run resumes from a manifest).
\<close>

theorem run_fetches_once:
  "(\<exists>new. fetch_log (snd (run w sig s)) = fetch_log s @ new \<and> distinct new
      \<and> fset_of_list new |\<inter>| visited s = {||}
      \<and> visited (snd (run w sig s)) = visited s |\<union>| fset_of_list new)
   \<and> int (fcard (visited (snd (run w sig s))))
       \<le> max (max_pages (conf s)) (int (fcard (visited s)))"
  using run_grows[of w sig s] run_visited_bound[of w sig s] by simp

theorem run_fetches_once_witness:
  "fetch_log (snd (run example_site None failing_crawler))
     = [''http://h/doc/down/'', ''http://h/doc/gone/'']
   \<and> (\<exists>new. fetch_log (snd (run example_site None failing_crawler))
               = fetch_log failing_crawler @ new \<and> distinct new
      \<and> fset_of_list new |\<inter>| visited failing_crawler = {||}
      \<and> visited (snd (run example_site None failing_crawler))
          = visited failing_crawler |\<union>| fset_of_list new)
   \<and> int (fcard (visited (snd (run example_site None failing_crawler))))
       \<le> max (max_pages (conf failing_crawler)) (int (fcard (visited failing_crawler)))"
proof -
  have "fetch_log (snd (run example_site None failing_crawler))
     = [''http://h/doc/down/'', ''http://h/doc/gone/'']"
    by (simp add: run.simps iteration_def fetch_def can_fetch_def example_site_def
        failing_crawler_def Let_def write_stats_def close_writers_def fcard_finsert_if fcard_fempty)
  with run_fetches_once[of example_site None failing_crawler] show ?thesis by blast
qed

subsection \<open>The run summary\<close>

lemma seed_queue_frame:
  "seed_queue w s = Inr s' \<Longrightarrow> \<exists>q. s' = s\<lparr>queue := q\<rparr>"
  by (auto simp: seed_queue_def Let_def split: if_splits sum.splits)

lemma Crawler_init_out_stats:
  "Crawler_init w a d = Inr s \<Longrightarrow> out_stats (out s) = stats_json d"
  "Crawler_init w a d = Inl (e, d') \<Longrightarrow> stats_json d' = stats_json d"
  unfolding Crawler_init_def Let_def
  by (auto simp: disk_of_def split: sum.splits if_splits dest!: seed_queue_frame)

lemma run_out_stats:
  "(case fst (run w sig s) of
      Finished \<Rightarrow> out_stats (out (snd (run w sig s))) = Some (stats (snd (run w sig s)))
    | Interrupted \<Rightarrow> out_stats (out (snd (run w sig s))) = Some (stats (snd (run w sig s)))
    | Raised e \<Rightarrow> out_stats (out (snd (run w sig s))) = out_stats (out s))"
proof (induction w sig s rule: run.induct)
  case (1 w sig s)
  show ?case
  proof (cases rule: run_cases[of s w sig])
    case finished
    then show ?thesis by (simp add: finish_fields)
  next
    case interrupted
    then show ?thesis by (simp add: handle_sigint_fields)
  next
    case (raised e s')
    from raised(1) obtain url rest where q: "queue s = url # rest" by (cases "queue s") auto
    from iteration_step[OF q, of w s' e] raised(4) have "out_stats (out s') = out_stats (out s)" by simp
    with raised(5) show ?thesis by simp
  next
    case (continued s')
    from continued(1) obtain url rest where q: "queue s = url # rest" by (cases "queue s") auto
    from iteration_step[OF q, of w s'] continued(4) have o: "out_stats (out s') = out_stats (out s)" by simp
    from "1.IH"[OF _ _ continued(4)] continued(1,2,3) o show ?thesis
      unfolding continued(5) by (auto split: ending.splits)
  qed
qed

lemma normalize_ftp:
  "normalize_url \<lparr>check_bracketed_host = (\<lambda>h. True), checknetloc = (\<lambda>n. True)\<rparr> ''ftp://h/doc/'' = Inr []"
  by code_simp

lemma normalize_down:
  "normalize_url \<lparr>check_bracketed_host = (\<lambda>h. True), checknetloc = (\<lambda>n. True)\<rparr> ''http://h/doc/down''
     = Inr ''http://h/doc/down/''"
  by code_simp

lemma urlparse_down:
  "urlparse \<lparr>check_bracketed_host = (\<lambda>h. True), checknetloc = (\<lambda>n. True)\<rparr> ''http://h/doc/down/''
     = Inr \<lparr>scheme = ''http'', netloc = ''h'', path = ''/doc/down/'', params = [], query = [], fragment = []\<rparr>"
  by code_simp

lemma main_bad_args:
  "main example_site bad_args None empty_disk = Inl (ValueError, empty_disk)"
  by (simp add: main_def Crawler_init_def bad_args_def example_args_def example_site_def normalize_ftp)

lemma main_down_args:
  "\<exists>s. main example_site down_args None empty_disk = Inr (Finished, s)
     \<and> stats s = \<lparr>pages_fetched = 0, pages_skipped = 0, pages_failed = 1,
                   chunks_written = 0, chunks_deduped = 0, queue_peek = 0\<rparr>"
  by (simp add: main_def Crawler_init_def down_args_def example_args_def example_site_def
      normalize_down urlparse_down seed_queue_def endswith_def empty_disk_def Let_def
      run.simps iteration_def fetch_def can_fetch_def write_stats_def close_writers_def
      fcard_finsert_if fcard_fempty)

text \<open>
  The claim of C6 as stated, refuted: a run whose base URL is refused ends with exit code 1
  and without \<open>stats.json\<close>.
\<close>

theorem no_stats_counterexample:
  "exit_code (main example_site bad_args None empty_disk) = 1
   \<and> stats_json (final_disk (main example_site bad_args None empty_disk)) = None"
  unfolding main_bad_args by (simp add: exit_code_def final_disk_def empty_disk_def)

text \<open>
  C6, amended. A run that ends normally or by the interrupt handler has written
  \<open>stats.json\<close> with the counters of the crawler at that moment. A run that ends by an
  exception, in the constructor or out of \<open>run\<close>, leaves \<open>stats.json\<close> as it was before
  the run.
\<close>

theorem stats_written_unless_fatal:
  "(case main w a sig d of
      Inl (e, d') \<Rightarrow> stats_json d' = stats_json d
    | Inr (Finished, s) \<Rightarrow> stats_json (disk_of (out s)) = Some (stats s)
    | Inr (Interrupted, s) \<Rightarrow> stats_json (disk_of (out s)) = Some (stats s)
    | Inr (Raised e, s) \<Rightarrow> stats_json (disk_of (out s)) = stats_json d)"
proof (cases "Crawler_init w a d")
  case (Inl ed)
  obtain e d' where "ed = (e, d')" by (cases ed)
  with Inl Crawler_init_out_stats(2)[of w a d e d'] show ?thesis by (simp add: main_def)
next
  case (Inr s)
  obtain how s' where r: "run w sig s = (how, s')" by (cases "run w sig s")
  from run_out_stats[of w sig s] r Crawler_init_out_stats(1)[OF Inr]
  show ?thesis using Inr by (cases how) (simp_all add: main_def disk_of_def)
qed

theorem stats_written_unless_fatal_witness:
  "(\<exists>s. main example_site down_args None empty_disk = Inr (Finished, s)
      \<and> stats_json (disk_of (out s))
          = Some \<lparr>pages_fetched = 0, pages_skipped = 0, pages_failed = 1,
                   chunks_written = 0, chunks_deduped = 0, queue_peek = 0\<rparr>)
   \<and> main example_site bad_args None empty_disk = Inl (ValueError, empty_disk)"
proof -
  from main_down_args obtain s where
    s: "main example_site down_args None empty_disk = Inr (Finished, s)"
       "stats s = \<lparr>pages_fetched = 0, pages_skipped = 0, pages_failed = 1,
                   chunks_written = 0, chunks_deduped = 0, queue_peek = 0\<rparr>" by blast
  from stats_written_unless_fatal[where w = example_site and a = down_args and sig = None
      and d = empty_disk] s
  have "stats_json (disk_of (out s)) = Some \<lparr>pages_fetched = 0, pages_skipped = 0, pages_failed = 1,
                   chunks_written = 0, chunks_deduped = 0, queue_peek = 0\<rparr>" by simp
  with s(1) main_bad_args show ?thesis by blast
qed

subsection \<open>Page-level errors\<close>

text \<open>The crawler after the pop, the visited mark and the request for \<open>url\<close>; \<open>failed\<close> is
  the rest of the pass after a failed fetch.\<close>

lemma iteration_fetch:
  assumes q: "queue s = url # rest" and nv: "url |\<notin>| visited s" and cf: "can_fetch w s url"
  defines "s4 \<equiv> s\<lparr>queue := rest, visited := finsert url (visited s),
        stats := (stats s)\<lparr>queue_peek := max (queue_peek (stats s)) (length rest)\<rparr>,
        fetch_log := fetch_log s @ [url]\<rparr>"
  defines "s5 \<equiv> s4\<lparr>stats := (stats s4)\<lparr>pages_failed := pages_failed (stats s4) + 1\<rparr>\<rparr>"
  defines "failed \<equiv> (case time_sleep w (delay (conf s)) of
                         Some e \<Rightarrow> Inl (e, s5) | None \<Rightarrow> Inr s5)"
  shows "iteration w s =
     (case http_get w (length (fetch_log s)) url of
        Response code body \<Rightarrow>
          if 200 \<le> code \<and> code < 300 then process_page w s4 url body else failed
      | TransportError \<Rightarrow> failed)"
proof -
  have cf': "can_fetch w (s\<lparr>queue := rest\<rparr>) url" using cf by (simp add: can_fetch_def)
  show ?thesis
    using q nv cf'
    by (auto simp: iteration_def fetch_def Let_def s4_def s5_def failed_def
        split: response.splits option.splits)
qed

lemma iteration_fetch_failed:
  assumes q: "queue s = url # rest" and nv: "url |\<notin>| visited s" and cf: "can_fetch w s url"
    and f: "http_get w (length (fetch_log s)) url = TransportError \<or>
            (\<exists>code body. http_get w (length (fetch_log s)) url = Response code body
               \<and> \<not> (200 \<le> code \<and> code < 300))"
  shows "\<exists>s'. iteration w s = (case time_sleep w (delay (conf s)) of
                                 Some e \<Rightarrow> Inl (e, s') | None \<Rightarrow> Inr s')
           \<and> pages_failed (stats s') = pages_failed (stats s) + 1
           \<and> pages_fetched (stats s') = pages_fetched (stats s)
           \<and> queue s' = rest \<and> visited s' = finsert url (visited s)"
  using f by (auto simp: iteration_fetch[OF q nv cf])

lemma iteration_extract_raises:
  assumes q: "queue s = url # rest" and nv: "url |\<notin>| visited s" and cf: "can_fetch w s url"
    and f: "http_get w (length (fetch_log s)) url = Response code body" "200 \<le> code" "code < 300"
    and r: "url_to_relpath (lib w) url (base_path (conf s)) = Inr rel"
    and m: "fs_mkdir w (Suc (length (fetch_log s))) (''html/'' @ rel) = None"
           "fs_mkdir w (Suc (length (fetch_log s))) (''text/'' @ with_suffix_txt rel) = None"
    and x: "soup_text_title w body = None"
  shows "\<exists>s'. iteration w s = Inl (SoupError, s')
           \<and> stats s' = stats s\<lparr>queue_peek := max (queue_peek (stats s)) (length rest)\<rparr>
           \<and> queue s' = rest"
  using f r m x by (simp add: iteration_fetch[OF q nv cf] process_page_def)

lemma run_fetch_failed:
  assumes q: "queue s = url # rest" and nv: "url |\<notin>| visited s" and cf: "can_fetch w s url"
    and c: "int (fcard (visited s)) < max_pages (conf s)" and sg: "sig \<noteq> Some 0"
    and f: "http_get w (length (fetch_log s)) url = TransportError \<or>
            (\<exists>code body. http_get w (length (fetch_log s)) url = Response code body
               \<and> \<not> (200 \<le> code \<and> code < 300))"
    and sl: "time_sleep w (delay (conf s)) = None"
  shows "\<exists>s'. iteration w s = Inr s' \<and> pages_failed (stats s') = pages_failed (stats s) + 1
           \<and> queue s' = rest \<and> url |\<in>| visited s'
           \<and> run w sig s = run w (map_option (\<lambda>n. n - 1) sig) s'"
proof -
  from iteration_fetch_failed[OF q nv cf f] sl obtain s' where
    s': "iteration w s = Inr s'" "pages_failed (stats s') = pages_failed (stats s) + 1"
      "queue s' = rest" "visited s' = finsert url (visited s)" by auto
  have "run w sig s = run w (map_option (\<lambda>n. n - 1) sig) s'"
    using q c sg s'(1) by (subst run.simps) simp
  with s' show ?thesis by (intro exI[of _ s']) simp
qed

lemma run_sleep_raises:
  assumes q: "queue s = url # rest" and nv: "url |\<notin>| visited s" and cf: "can_fetch w s url"
    and c: "int (fcard (visited s)) < max_pages (conf s)" and sg: "sig \<noteq> Some 0"
    and f: "http_get w (length (fetch_log s)) url = TransportError \<or>
            (\<exists>code body. http_get w (length (fetch_log s)) url = Response code body
               \<and> \<not> (200 \<le> code \<and> code < 300))"
    and sl: "time_sleep w (delay (conf s)) = Some e"
  shows "\<exists>s'. run w sig s = (Raised e, s')
           \<and> pages_failed (stats s') = pages_failed (stats s) + 1 \<and> queue s' = rest"
proof -
  from iteration_fetch_failed[OF q nv cf f] sl obtain s' where
    s': "iteration w s = Inl (e, s')" "pages_failed (stats s') = pages_failed (stats s) + 1"
      "queue s' = rest" by auto
  have "run w sig s = (Raised e, s')"
    using q c sg s'(1) by (subst run.simps) simp
  with s' show ?thesis by (intro exI[of _ s']) simp
qed

lemma run_extract_raises:
  assumes q: "queue s = url # rest" and nv: "url |\<notin>| visited s" and cf: "can_fetch w s url"
    and c: "int (fcard (visited s)) < max_pages (conf s)" and sg: "sig \<noteq> Some 0"
    and f: "http_get w (length (fetch_log s)) url = Response code body" "200 \<le> code" "code < 300"
    and r: "url_to_relpath (lib w) url (base_path (conf s)) = Inr rel"
    and m: "fs_mkdir w (Suc (length (fetch_log s))) (''html/'' @ rel) = None"
           "fs_mkdir w (Suc (length (fetch_log s))) (''text/'' @ with_suffix_txt rel) = None"
    and x: "soup_text_title w body = None"
  shows "\<exists>s'. run w sig s = (Raised SoupError, s')
           \<and> pages_failed (stats s') = pages_failed (stats s) \<and> queue s' = rest"
proof -
  from iteration_extract_raises[OF q nv cf f r m x] obtain s' where
    s': "iteration w s = Inl (SoupError, s')"
      "stats s' = stats s\<lparr>queue_peek := max (queue_peek (stats s)) (length rest)\<rparr>"
      "queue s' = rest" by blast
  have "run w sig s = (Raised SoupError, s')"
    using q c sg s'(1) by (subst run.simps) simp
  with s' show ?thesis by (intro exI[of _ s']) simp
qed

lemma relpath_x:
  "url_to_relpath \<lparr>check_bracketed_host = (\<lambda>h. True), checknetloc = (\<lambda>n. True)\<rparr>
     ''http://h/doc/x/'' ''/doc/'' = Inr ''x/index.html''"
  by code_simp

lemma x_crawler_raises:
  "\<exists>s'. run example_site None x_crawler = (Raised SoupError, s')
           \<and> pages_failed (stats s') = pages_failed (stats x_crawler)
           \<and> queue s' = [''http://h/doc/gone/'']"
proof (rule run_extract_raises[where code = 200 and body = "''X''" and rel = "''x/index.html''"])
  show "queue x_crawler = [''http://h/doc/x/'', ''http://h/doc/gone/'']"
    by (simp add: x_crawler_def)
  show "''http://h/doc/x/'' |\<notin>| visited x_crawler"
    by (simp add: x_crawler_def failing_crawler_def)
  show "can_fetch example_site x_crawler ''http://h/doc/x/''"
    by (simp add: can_fetch_def x_crawler_def failing_crawler_def)
  show "int (fcard (visited x_crawler)) < max_pages (conf x_crawler)"
    by (simp add: x_crawler_def failing_crawler_def fcard_fempty)
  show "None \<noteq> Some (0::nat)" by simp
  show "http_get example_site (length (fetch_log x_crawler)) ''http://h/doc/x/'' = Response 200 ''X''"
    by (simp add: example_site_def)
  show "(200::int) \<le> 200" "(200::int) < 300" by simp_all
  show "url_to_relpath (lib example_site) ''http://h/doc/x/'' (base_path (conf x_crawler)) = Inr ''x/index.html''"
    using relpath_x by (simp add: example_site_def x_crawler_def failing_crawler_def)
  show "fs_mkdir example_site (Suc (length (fetch_log x_crawler))) (''html/'' @ ''x/index.html'') = None"
    "fs_mkdir example_site (Suc (length (fetch_log x_crawler)))
       (''text/'' @ with_suffix_txt ''x/index.html'') = None"
    by (simp_all add: example_site_def)
  show "soup_text_title example_site ''X'' = None"
    by (simp add: example_site_def)
qed

text \<open>
  The claim of C7 as stated, refuted: when the extraction raises on a fetched page, the
  exception leaves \<open>run\<close>, \<open>pages_failed\<close> is not incremented, and the URL still in the
  queue is never tried.
\<close>

theorem extraction_error_counterexample:
  "fst (run example_site None x_crawler) = Raised SoupError
   \<and> pages_failed (stats (snd (run example_site None x_crawler))) = 0
   \<and> queue (snd (run example_site None x_crawler)) = [''http://h/doc/gone/'']"
proof -
  from x_crawler_raises obtain s' where "run example_site None x_crawler = (Raised SoupError, s')"
    "pages_failed (stats s') = pages_failed (stats x_crawler)" "queue s' = [''http://h/doc/gone/'']"
    by blast
  then show ?thesis by (simp add: x_crawler_def failing_crawler_def)
qed

text \<open>
  C7, amended. When the loop is about to fetch \<open>url\<close> (the head of the queue, not visited,
  allowed by robots) and the session raises or answers with a status outside 2xx, the
  failure is counted in \<open>pages_failed\<close> and \<open>url\<close> is off the queue; then the pass sleeps.
  If \<open>time.sleep\<close> accepts the configured delay, the pass ends normally, \<open>url\<close> is visited
  and the loop goes on with the next pass; if \<open>time.sleep\<close> raises (a negative, NaN or
  out-of-range delay), that exception leaves \<open>run\<close>. If the page is fetched, the two
  directories are made and the extraction raises, the exception is not caught in the loop:
  \<open>run\<close> ends with it, and \<open>pages_failed\<close> is unchanged.
\<close>

theorem fetch_errors_contained:
  assumes "queue s = url # rest" "url |\<notin>| visited s" "can_fetch w s url"
    and "int (fcard (visited s)) < max_pages (conf s)" "sig \<noteq> Some 0"
  shows "((http_get w (length (fetch_log s)) url = TransportError \<or>
            (\<exists>code body. http_get w (length (fetch_log s)) url = Response code body
               \<and> \<not> (200 \<le> code \<and> code < 300)))
          \<longrightarrow> (time_sleep w (delay (conf s)) = None
                \<longrightarrow> (\<exists>s'. iteration w s = Inr s'
                       \<and> pages_failed (stats s') = pages_failed (stats s) + 1
                       \<and> queue s' = rest \<and> url |\<in>| visited s'
                       \<and> run w sig s = run w (map_option (\<lambda>n. n - 1) sig) s'))
            \<and> (\<forall>e. time_sleep w (delay (conf s)) = Some e
                \<longrightarrow> (\<exists>s'. run w sig s = (Raised e, s')
                       \<and> pages_failed (stats s') = pages_failed (stats s) + 1
                       \<and> queue s' = rest)))
       \<and> ((\<exists>code body rel. http_get w (length (fetch_log s)) url = Response code body
               \<and> 200 \<le> code \<and> code < 300
               \<and> url_to_relpath (lib w) url (base_path (conf s)) = Inr rel
               \<and> fs_mkdir w (Suc (length (fetch_log s))) (''html/'' @ rel) = None
               \<and> fs_mkdir w (Suc (length (fetch_log s))) (''text/'' @ with_suffix_txt rel) = None
               \<and> soup_text_title w body = None)
          \<longrightarrow> (\<exists>s'. run w sig s = (Raised SoupError, s')
                 \<and> pages_failed (stats s') = pages_failed (stats s) \<and> queue s' = rest))"
proof (intro conjI impI allI)
  assume f: "http_get w (length (fetch_log s)) url = TransportError \<or>
            (\<exists>code body. http_get w (length (fetch_log s)) url = Response code body
               \<and> \<not> (200 \<le> code \<and> code < 300))"
    and sl: "time_sleep w (delay (conf s)) = None"
  from run_fetch_failed[OF assms f sl]
  show "\<exists>s'. iteration w s = Inr s' \<and> pages_failed (stats s') = pages_failed (stats s) + 1
                 \<and> queue s' = rest \<and> url |\<in>| visited s'
                 \<and> run w sig s = run w (map_option (\<lambda>n. n - 1) sig) s'" .
next
  fix e
  assume f: "http_get w (length (fetch_log s)) url = TransportError \<or>
            (\<exists>code body. http_get w (length (fetch_log s)) url = Response code body
               \<and> \<not> (200 \<le> code \<and> code < 300))"
    and sl: "time_sleep w (delay (conf s)) = Some e"
  from run_sleep_raises[OF assms f sl]
  show "\<exists>s'. run w sig s = (Raised e, s')
           \<and> pages_failed (stats s') = pages_failed (stats s) + 1 \<and> queue s' = rest" .
next
  assume "\<exists>code body rel. http_get w (length (fetch_log s)) url = Response code body
               \<and> 200 \<le> code \<and> code < 300
               \<and> url_to_relpath (lib w) url (base_path (conf s)) = Inr rel
               \<and> fs_mkdir w (Suc (length (fetch_log s))) (''html/'' @ rel) = None
               \<and> fs_mkdir w (Suc (length (fetch_log s))) (''text/'' @ with_suffix_txt rel) = None
               \<and> soup_text_title w body = None"
  then obtain code body rel where "http_get w (length (fetch_log s)) url = Response code body"
    "200 \<le> code" "code < 300" "url_to_relpath (lib w) url (base_path (conf s)) = Inr rel"
    "fs_mkdir w (Suc (length (fetch_log s))) (''html/'' @ rel) = None"
    "fs_mkdir w (Suc (length (fetch_log s))) (''text/'' @ with_suffix_txt rel) = None"
    "soup_text_title w body = None" by blast
  from run_extract_raises[OF assms this]
  show "\<exists>s'. run w sig s = (Raised SoupError, s')
                 \<and> pages_failed (stats s') = pages_failed (stats s) \<and> queue s' = rest" .
qed

theorem fetch_errors_contained_witness:
  "(\<exists>s'. iteration example_site failing_crawler = Inr s' \<and> pages_failed (stats s') = 1
          \<and> queue s' = [''http://h/doc/down/'', ''http://h/doc/gone/'']
          \<and> ''http://h/doc/down/'' |\<in>| visited s'
          \<and> run example_site None failing_crawler = run example_site None s')
   \<and> (\<exists>s'. run example_site None impatient_crawler = (Raised ValueError, s')
          \<and> pages_failed (stats s') = 1
          \<and> queue s' = [''http://h/doc/down/'', ''http://h/doc/gone/''])
   \<and> (\<exists>s'. run example_site None x_crawler = (Raised SoupError, s')
          \<and> pages_failed (stats s') = 0 \<and> queue s' = [''http://h/doc/gone/''])"
proof -
  have q: "queue failing_crawler = ''http://h/doc/down/'' # [''http://h/doc/down/'', ''http://h/doc/gone/'']"
    by (simp add: failing_crawler_def)
  have nv: "''http://h/doc/down/'' |\<notin>| visited failing_crawler"
    by (simp add: failing_crawler_def)
  have cf: "can_fetch example_site failing_crawler ''http://h/doc/down/''"
    by (simp add: can_fetch_def failing_crawler_def)
  have c: "int (fcard (visited failing_crawler)) < max_pages (conf failing_crawler)"
    by (simp add: failing_crawler_def fcard_fempty)
  have sg: "None \<noteq> Some (0::nat)" by simp
  have f: "http_get example_site (length (fetch_log failing_crawler)) ''http://h/doc/down/'' = TransportError"
    by (simp add: example_site_def)
  have sl: "time_sleep example_site (delay (conf failing_crawler)) = None"
    by (simp add: example_site_def failing_crawler_def)
  have p0: "pages_failed (stats failing_crawler) = 0" by (simp add: failing_crawler_def)
  from fetch_errors_contained[OF q nv cf c sg] f sl p0
  have a: "\<exists>s'. iteration example_site failing_crawler = Inr s' \<and> pages_failed (stats s') = 1
          \<and> queue s' = [''http://h/doc/down/'', ''http://h/doc/gone/'']
          \<and> ''http://h/doc/down/'' |\<in>| visited s'
          \<and> run example_site None failing_crawler = run example_site None s'"
    by simp
  have q': "queue impatient_crawler = ''http://h/doc/down/'' # [''http://h/doc/down/'', ''http://h/doc/gone/'']"
    by (simp add: impatient_crawler_def failing_crawler_def)
  have nv': "''http://h/doc/down/'' |\<notin>| visited impatient_crawler"
    by (simp add: impatient_crawler_def failing_crawler_def)
  have cf': "can_fetch example_site impatient_crawler ''http://h/doc/down/''"
    by (simp add: can_fetch_def impatient_crawler_def failing_crawler_def)
  have c': "int (fcard (visited impatient_crawler)) < max_pages (conf impatient_crawler)"
    by (simp add: impatient_crawler_def failing_crawler_def fcard_fempty)
  have f': "http_get example_site (length (fetch_log impatient_crawler)) ''http://h/doc/down/'' = TransportError"
    by (simp add: example_site_def)
  have sl': "time_sleep example_site (delay (conf impatient_crawler)) = Some ValueError"
    by (simp add: example_site_def impatient_crawler_def failing_crawler_def)
  have p0': "pages_failed (stats impatient_crawler) = 0"
    by (simp add: impatient_crawler_def failing_crawler_def)
  from fetch_errors_contained[OF q' nv' cf' c' sg] f' sl' p0'
  have b: "\<exists>s'. run example_site None impatient_crawler = (Raised ValueError, s')
          \<and> pages_failed (stats s') = 1
          \<and> queue s' = [''http://h/doc/down/'', ''http://h/doc/gone/'']"
    by simp
  from x_crawler_raises have d: "\<exists>s'. run example_site None x_crawler = (Raised SoupError, s')
          \<and> pages_failed (stats s') = 0 \<and> queue s' = [''http://h/doc/gone/'']"
    by (simp add: x_crawler_def failing_crawler_def)
  from a b d show ?thesis by (intro conjI)
qed

section \<open>Properties of the utilities\<close>

subsection \<open>Artifact paths\<close>

lemma replace_dotdot_hd:
  assumes "replace ''..'' ''_'' s \<noteq> []" "hd (replace ''..'' ''_'' s) = c" "c \<noteq> CHR ''_''"
  shows "s \<noteq> [] \<and> hd s = c"
  using assms by (subst (asm) (1 2) replace.simps) (auto split: if_splits)

lemma replace_dotdot_no_dotdot: "\<not> sublist ''..'' (replace ''..'' ''_'' s)"
proof (induction "''..''" "''_''" s rule: replace.induct)
  case (1 s)
  show ?case
  proof (cases "s = []")
    case True
    then show ?thesis by (subst replace.simps) simp
  next
    case ne: False
    show ?thesis
    proof (cases "prefix ''..'' s")
      case True
      with ne 1(1) have "\<not> sublist ''..'' (replace ''..'' ''_'' (drop (length ''..'') s))"
        by blast
      with True ne show ?thesis
        by (subst replace.simps) (simp add: sublist_Cons_right)
    next
      case False
      with ne 1(2) have ih: "\<not> sublist ''..'' (replace ''..'' ''_'' (tl s))" by simp
      define xs where "xs = replace ''..'' ''_'' (tl s)"
      have "\<not> prefix ''..'' (hd s # xs)"
      proof
        assume p: "prefix ''..'' (hd s # xs)"
        then have h: "hd s = CHR ''.''" and r: "xs \<noteq> []" and h2: "hd xs = CHR ''.''"
          by (cases xs; simp)+
        from replace_dotdot_hd[OF r[unfolded xs_def] h2[unfolded xs_def]]
        have "tl s \<noteq> [] \<and> hd (tl s) = CHR ''.''" by simp
        with h ne have "prefix ''..'' s" by (cases s; cases "tl s") auto
        with False show False by simp
      qed
      with ih False ne show ?thesis
        by (subst replace.simps) (simp add: sublist_Cons_right xs_def)
    qed
  qed
qed

lemma lstrip_chars_hd: "lstrip_chars cs s \<noteq> [] \<Longrightarrow> hd (lstrip_chars cs s) \<notin> set cs"
  unfolding lstrip_chars_def using hd_dropWhile by metis

lemma url_to_relpath_shape:
  assumes "url_to_relpath L url bpath = Inr rel"
  shows "rel \<noteq> [] \<and> \<not> startswith rel ''/'' \<and> \<not> sublist ''..'' rel"
proof -
  from assms obtain p where p: "urlparse L url = Inr p"
    by (auto simp: url_to_relpath_def split: sum.splits)
  define rel0 where "rel0 = (if \<not> startswith (path p) bpath then lstrip_chars ''/'' (path p)
                       else lstrip_chars ''/'' (drop (length bpath) (path p)))"
  define rel1 where "rel1 = (if (rel0 = [] \<or> endswith rel0 ''/'') \<or> snd (splitext rel0) = []
                       then lstrip_chars ''/'' (rstrip_chars ''/'' rel0 @ ''/index.html'')
                       else rel0)"
  define rel2 where "rel2 = replace ''..'' ''_'' rel1"
  have "Inr rel = (Inr (if rel2 \<noteq> [] then rel2 else ''index.html'') :: exn + string)"
    using assms unfolding url_to_relpath_def p Let_def rel2_def rel1_def rel0_def
    by (simp only: sum.case)
  then have rel: "rel = (if rel2 \<noteq> [] then rel2 else ''index.html'')"
    by (simp only: sum.inject)
  have h0: "rel0 \<noteq> [] \<Longrightarrow> hd rel0 \<noteq> CHR ''/''"
    using lstrip_chars_hd[of "''/''"] by (auto simp: rel0_def)
  have h1: "rel1 \<noteq> [] \<Longrightarrow> hd rel1 \<noteq> CHR ''/''"
    using lstrip_chars_hd[of "''/''"] h0 by (auto simp: rel1_def)
  have h2: "rel2 \<noteq> [] \<Longrightarrow> hd rel2 \<noteq> CHR ''/''"
    using replace_dotdot_hd[of rel1 "CHR ''/''"] h1 by (auto simp: rel2_def)
  have d2: "\<not> sublist ''..'' rel2"
    by (simp add: rel2_def replace_dotdot_no_dotdot)
  have d3: "\<not> sublist ''..'' ''index.html''"
    by (simp add: sublist_Cons_right)
  from rel h2 d2 d3 show ?thesis
    by (cases rel2) (auto simp: startswith_def)
qed

lemma split_slash_ne: "split_slash p \<noteq> []"
  by (induction p) (auto split: list.splits)

lemma split_slash_sublist: "x \<in> set (split_slash p) \<Longrightarrow> sublist x p"
proof (induction p arbitrary: x)
  case Nil
  then show ?case by simp
next
  case (Cons c cs)
  show ?case
  proof (cases "c = CHR ''/''")
    case True
    with Cons show ?thesis by (auto simp: sublist_Cons_right)
  next
    case False
    obtain h t where ht: "split_slash cs = h # t"
      using split_slash_ne[of cs] by (cases "split_slash cs") auto
    from Cons.prems False ht have "x = c # h \<or> x \<in> set t" by simp
    then show ?thesis
    proof
      assume x: "x = c # h"
      have "prefix h cs"
        using ht
      proof (induction cs arbitrary: h t)
        case Nil
        then show ?case by simp
      next
        case (Cons a as)
        obtain h' t' where "split_slash as = h' # t'"
          using split_slash_ne[of as] by (cases "split_slash as") auto
        with Cons show ?case by (auto split: if_splits)
      qed
      with x show ?thesis by (simp add: sublist_Cons_right)
    next
      assume "x \<in> set t"
      with ht Cons.IH[of x] show ?thesis by (simp add: sublist_Cons_right)
    qed
  qed
qed

lemma split_slash_no_slash: "CHR ''/'' \<notin> set t \<Longrightarrow> split_slash t = [t]"
  by (induction t) auto

lemma split_slash_append:
  "CHR ''/'' \<notin> set t \<Longrightarrow>
     split_slash (q @ t) = butlast (split_slash q) @ [last (split_slash q) @ t]"
proof (induction q)
  case Nil
  then show ?case by (simp add: split_slash_no_slash)
next
  case (Cons c cs)
  obtain h r where hr: "split_slash cs = h # r"
    using split_slash_ne[of cs] by (cases "split_slash cs") auto
  from Cons hr show ?case by (cases r) (auto split: list.splits)
qed

lemma with_suffix_txt_take:
  "\<exists>k. with_suffix_txt rel = take k rel @ ''.txt'' \<and> (rel \<noteq> [] \<longrightarrow> 0 < k)"
proof -
  define name where "name = after_last CHR ''/'' rel"
  define suf where "suf = (if CHR ''.'' \<in> set name then CHR ''.'' # after_last CHR ''.'' name else [])"
  have n: "length name \<le> length rel"
    unfolding name_def after_last_def by (metis length_rev length_takeWhile_le)
  have w: "with_suffix_txt rel =
      (if suf \<noteq> [] \<and> length suf < length name \<and> length suf > 1
       then take (length rel - length suf) rel @ ''.txt'' else rel @ ''.txt'')"
    unfolding with_suffix_txt_def Let_def name_def[symmetric] suf_def[symmetric] ..
  show ?thesis
  proof (cases "suf \<noteq> [] \<and> length suf < length name \<and> length suf > 1")
    case True
    with n have "0 < length rel - length suf" by simp
    with w True show ?thesis by (intro exI[of _ "length rel - length suf"]) simp
  next
    case False
    with w have "with_suffix_txt rel = rel @ ''.txt''" by auto
    then show ?thesis by (intro exI[of _ "length rel"]) simp
  qed
qed

lemma with_suffix_txt_parts:
  assumes "\<not> sublist ''..'' rel"
  shows "''..'' \<notin> set (split_slash (with_suffix_txt rel))"
proof
  assume a: "''..'' \<in> set (split_slash (with_suffix_txt rel))"
  from with_suffix_txt_take obtain k where k: "with_suffix_txt rel = take k rel @ ''.txt''"
    by blast
  have "split_slash (take k rel @ ''.txt'') =
          butlast (split_slash (take k rel)) @ [last (split_slash (take k rel)) @ ''.txt'']"
    by (rule split_slash_append) simp
  with a k have "''..'' \<in> set (butlast (split_slash (take k rel)))
                 \<or> ''..'' = last (split_slash (take k rel)) @ ''.txt''" by auto
  then show False
  proof
    assume "''..'' \<in> set (butlast (split_slash (take k rel)))"
    then have "''..'' \<in> set (split_slash (take k rel))" by (rule in_set_butlastD)
    then have "sublist ''..'' (take k rel)" by (rule split_slash_sublist)
    moreover have "sublist (take k rel) rel"
      by (metis append_take_drop_id sublist_appendI sublist_order.order_refl sublist_append_rightI)
    ultimately have "sublist ''..'' rel" by (rule sublist_order.order_trans)
    with assms show False by simp
  next
    assume "''..'' = last (split_slash (take k rel)) @ ''.txt''"
    then have "length ''..'' = length (last (split_slash (take k rel)) @ ''.txt'')" by simp
    then show False by simp
  qed
qed

lemma page_outputs_artifacts:
  "out_html (out (page_outputs w s url html rel tx ti)) =
     (if save_html (conf s) then (out_html (out s))((''html/'' @ rel) \<mapsto> html)
      else out_html (out s))
   \<and> out_txt (out (page_outputs w s url html rel tx ti)) =
     (if save_text (conf s) then (out_txt (out s))((''text/'' @ with_suffix_txt rel) \<mapsto> tx)
      else out_txt (out s))"
proof -
  define s1 where "s1 = (if save_html (conf s)
                then s\<lparr>out := (out s)\<lparr>out_html := (out_html (out s))((''html/'' @ rel) \<mapsto> html)\<rparr>\<rparr>
                else s)"
  define s2 where "s2 = (if save_text (conf s1)
                then s1\<lparr>out := (out s1)\<lparr>out_txt := (out_txt (out s1))((''text/'' @ with_suffix_txt rel) \<mapsto> tx)\<rparr>\<rparr>
                else s1)"
  define r where "r = write_records w s2 (page_id s2) url ti tx
                (if save_html (conf s2) then Some (''html/'' @ rel) else None)
                (if save_text (conf s2) then Some (''text/'' @ with_suffix_txt rel) else None)"
  obtain s3 t d where r3: "r = (s3, t, d)" by (cases r) auto
  from write_records_frame[OF r3[unfolded r_def]]
  have f: "out_html (out s3) = out_html (out s2)" "out_txt (out s3) = out_txt (out s2)"
    by simp_all
  have p: "page_outputs w s url html rel tx ti =
      s3\<lparr>stats := (stats s3)\<lparr>pages_fetched := pages_fetched (stats s3) + 1,
                                    chunks_written := chunks_written (stats s3) + t,
                                    chunks_deduped := chunks_deduped (stats s3) + d\<rparr>\<rparr>"
    unfolding page_outputs_def Let_def s1_def[symmetric] s2_def[symmetric] r_def[symmetric] r3
    by simp
  show ?thesis unfolding p using f by (simp add: s2_def s1_def)
qed

text \<open>
  C10. Whenever \<open>url_to_relpath\<close> returns a relative path for a URL and a base path, that
  path is not empty, does not start with a slash and does not contain two consecutive
  dots. The relative path of the text artifact, the same path with the suffix \<open>.txt\<close>, is
  not empty and does not start with a slash either, and none of the components of the two
  paths is \<open>..\<close> (the text path may hold two consecutive dots inside a file name, as in
  \<open>a..txt\<close>). A page for which this path was computed writes no artifact other than the
  file \<open>html/rel\<close> among the HTML artifacts and the file \<open>text/rel.txt\<close> among the text
  artifacts.
\<close>

theorem artifact_paths_safe:
  assumes "url_to_relpath L url bpath = Inr rel"
  shows "rel \<noteq> [] \<and> \<not> startswith rel ''/'' \<and> \<not> sublist ''..'' rel
       \<and> ''..'' \<notin> set (path_parts rel)
       \<and> with_suffix_txt rel \<noteq> [] \<and> \<not> startswith (with_suffix_txt rel) ''/''
       \<and> ''..'' \<notin> set (path_parts (with_suffix_txt rel))
       \<and> out_html (out (page_outputs w s url html rel tx ti)) =
           (if save_html (conf s) then (out_html (out s))((''html/'' @ rel) \<mapsto> html)
            else out_html (out s))
       \<and> out_txt (out (page_outputs w s url html rel tx ti)) =
           (if save_text (conf s) then (out_txt (out s))((''text/'' @ with_suffix_txt rel) \<mapsto> tx)
            else out_txt (out s))"
proof -
  from url_to_relpath_shape[OF assms]
  have a: "rel \<noteq> []" "\<not> startswith rel ''/''" "\<not> sublist ''..'' rel" by simp_all
  have b: "''..'' \<notin> set (path_parts rel)"
    using split_slash_sublist[of "''..''" rel] a(3) by (auto simp: path_parts_def)
  from with_suffix_txt_take obtain k where
    k: "with_suffix_txt rel = take k rel @ ''.txt''" "rel \<noteq> [] \<longrightarrow> 0 < k" by blast
  have c: "with_suffix_txt rel \<noteq> []" using k by simp
  have d: "\<not> startswith (with_suffix_txt rel) ''/''"
    using k a(1,2) by (cases rel; cases k) (auto simp: startswith_def)
  have e: "''..'' \<notin> set (path_parts (with_suffix_txt rel))"
    using with_suffix_txt_parts[OF a(3)] by (simp add: path_parts_def)
  show ?thesis
    using a b c d e page_outputs_artifacts[of w s url html rel tx ti] by simp
qed

theorem artifact_paths_safe_witness:
  "url_to_relpath \<lparr>check_bracketed_host = (\<lambda>_. True), checknetloc = (\<lambda>_. True)\<rparr>
      ''http://h/doc/../../etc/a.'' ''/doc/'' = Inr ''_/_/etc/a.''
   \<and> ''_/_/etc/a.'' \<noteq> [] \<and> \<not> startswith ''_/_/etc/a.'' ''/''
   \<and> \<not> sublist ''..'' ''_/_/etc/a.''
   \<and> path_parts ''_/_/etc/a.'' = [''_'', ''_'', ''etc'', ''a.'']
   \<and> with_suffix_txt ''_/_/etc/a.'' = ''_/_/etc/a..txt''
   \<and> path_parts (with_suffix_txt ''_/_/etc/a.'') = [''_'', ''_'', ''etc'', ''a..txt'']
   \<and> out_html (out (page_outputs example_site saving_crawler ''http://h/doc/../../etc/a.''
                      ''A'' ''_/_/etc/a.'' ''same text'' ''Title''))
       = [''html/_/_/etc/a.'' \<mapsto> ''A'']
   \<and> out_txt (out (page_outputs example_site saving_crawler ''http://h/doc/../../etc/a.''
                      ''A'' ''_/_/etc/a.'' ''same text'' ''Title''))
       = [''text/_/_/etc/a..txt'' \<mapsto> ''same text'']"
proof -
  have e: "url_to_relpath \<lparr>check_bracketed_host = (\<lambda>_. True), checknetloc = (\<lambda>_. True)\<rparr>
      ''http://h/doc/../../etc/a.'' ''/doc/'' = Inr ''_/_/etc/a.''"
    by code_simp
  have p: "path_parts ''_/_/etc/a.'' = [''_'', ''_'', ''etc'', ''a.'']"
    by code_simp
  have t: "with_suffix_txt ''_/_/etc/a.'' = ''_/_/etc/a..txt''"
    by code_simp
  have q: "path_parts ''_/_/etc/a..txt'' = [''_'', ''_'', ''etc'', ''a..txt'']"
    by code_simp
  have c: "save_html (conf saving_crawler)" "save_text (conf saving_crawler)"
    "out_html (out saving_crawler) = Map.empty" "out_txt (out saving_crawler) = Map.empty"
    by (simp_all add: saving_crawler_def failing_crawler_def)
  from artifact_paths_safe[OF e, where w = example_site and s = saving_crawler
      and html = "''A''" and tx = "''same text''" and ti = "''Title''"] e p q c
  show ?thesis unfolding t by simp
qed

subsection \<open>The chunking scenario\<close>

text \<open>
  The claim of C8 as stated, refuted: with a limit of 50 characters the two paragraphs
  (19 characters each, 39 with the line feed between them) do not give two chunks of which
  the second starts with the last 10 characters of the first.
\<close>

theorem chunk_text_scenario_counterexample:
  "\<not> (length (chunk_text ''Para one text here.\<newline>\<newline>Para two also here.'' 50 10) = 2
      \<and> startswith (chunk_text ''Para one text here.\<newline>\<newline>Para two also here.'' 50 10 ! 1)
           (slice_from (chunk_text ''Para one text here.\<newline>\<newline>Para two also here.'' 50 10 ! 0) (- 10)))"
proof -
  have "chunk_text ''Para one text here.\<newline>\<newline>Para two also here.'' 50 10
     = [''Para one text here.\<newline>Para two also here.'']"
    by code_simp
  then show ?thesis by simp
qed

text \<open>
  C8, amended. With \<open>max_chars = 50\<close> and \<open>overlap = 10\<close> the input yields exactly one
  chunk, the two paragraphs joined by one line feed. With \<open>max_chars = 30\<close> (each
  paragraph shorter, both together longer) it yields exactly two chunks, and the second
  starts with the last 10 characters of the first.
\<close>

theorem chunk_text_scenario:
  "chunk_text ''Para one text here.\<newline>\<newline>Para two also here.'' 50 10
     = [''Para one text here.\<newline>Para two also here.'']
   \<and> chunk_text ''Para one text here.\<newline>\<newline>Para two also here.'' 30 10
     = [''Para one text here.'', ''text here.\<newline>Para two also here.'']
   \<and> startswith ''text here.\<newline>Para two also here.''
         (slice_from ''Para one text here.'' (- 10))"
  by code_simp

section \<open>Link discovery\<close>

lemma link_target_queue: "link_target w (s\<lparr>queue := q\<rparr>) base a = link_target w s base a"
proof -
  have v: "visited (s\<lparr>queue := q\<rparr>) = visited s" and c: "conf (s\<lparr>queue := q\<rparr>) = conf s"
    by simp_all
  show ?thesis unfolding link_target_def v c ..
qed








section \<open>The manifest\<close>

lemma write_records_manifest:
  "fw_mani (out (fst (write_records w s pid url title tx hp tp))) =
     fw_mani (out s) @
       (if tx \<noteq> [] \<and> chunk_text tx (chunk_size (conf s)) (chunk_overlap (conf s)) \<noteq> []
        then [Row \<lparr>mr_id = ''page-'' @ str_nat pid, mr_url = url, mr_title = title,
                    mr_html_path = (case hp of None \<Rightarrow> [] | Some p \<Rightarrow> p),
                    mr_txt_path = (case tp of None \<Rightarrow> [] | Some p \<Rightarrow> p),
                    mr_chars = length tx\<rparr>]
        else [])"
proof -
  define chunks where "chunks = (if tx \<noteq> [] then chunk_text tx (chunk_size (conf s)) (chunk_overlap (conf s)) else [])"
  show ?thesis
  proof (cases "chunks = []")
    case True
    then show ?thesis by (auto simp: write_records_def chunks_def[symmetric]) (auto simp: chunks_def split: if_splits)
  next
    case False
    obtain s1 d1 where w1: "write_chunks w pid url title (length chunks) (enumerate 0 chunks) (s, 0) = (s1, d1)"
      by (cases "write_chunks w pid url title (length chunks) (enumerate 0 chunks) (s, 0)")
    from write_chunks_frame[OF w1] have m: "fw_mani (out s1) = fw_mani (out s)" by simp
    from False have c: "tx \<noteq> [] \<and> chunk_text tx (chunk_size (conf s)) (chunk_overlap (conf s)) \<noteq> []"
      by (auto simp: chunks_def split: if_splits)
    from c have ch: "chunks = chunk_text tx (chunk_size (conf s)) (chunk_overlap (conf s))"
      by (simp add: chunks_def)
    from False w1 m c show ?thesis
      unfolding ch by (simp add: write_records_def Let_def)
  qed
qed


lemma page_outputs_manifest:
  "fw_mani (out (page_outputs w s url html rel tx ti)) =
     fw_mani (out s) @
       (if tx \<noteq> [] \<and> chunk_text tx (chunk_size (conf s)) (chunk_overlap (conf s)) \<noteq> []
        then [Row \<lparr>mr_id = ''page-'' @ str_nat (page_id s), mr_url = url, mr_title = ti,
                    mr_html_path = (if save_html (conf s) then ''html/'' @ rel else []),
                    mr_txt_path = (if save_text (conf s) then ''text/'' @ with_suffix_txt rel else []),
                    mr_chars = length tx\<rparr>]
        else [])"
proof -
  define s1 where "s1 = (if save_html (conf s)
                then s\<lparr>out := (out s)\<lparr>out_html := (out_html (out s))((''html/'' @ rel) \<mapsto> html)\<rparr>\<rparr>
                else s)"
  define s2 where "s2 = (if save_text (conf s1)
                then s1\<lparr>out := (out s1)\<lparr>out_txt := (out_txt (out s1))((''text/'' @ with_suffix_txt rel) \<mapsto> tx)\<rparr>\<rparr>
                else s1)"
  define r where "r = write_records w s2 (page_id s2) url ti tx
                (if save_html (conf s2) then Some (''html/'' @ rel) else None)
                (if save_text (conf s2) then Some (''text/'' @ with_suffix_txt rel) else None)"
  have c2: "conf s2 = conf s" "page_id s2 = page_id s" "fw_mani (out s2) = fw_mani (out s)"
    by (simp_all add: s2_def s1_def)
  have p: "fw_mani (out (page_outputs w s url html rel tx ti)) = fw_mani (out (fst r))"
    unfolding page_outputs_def Let_def s1_def[symmetric] s2_def[symmetric] r_def[symmetric]
    by simp
  show ?thesis
    unfolding p r_def write_records_manifest c2 by simp
qed






lemma relpath_c:
  "url_to_relpath \<lparr>check_bracketed_host = (\<lambda>h. True), checknetloc = (\<lambda>n. True)\<rparr>
     ''http://h/doc/c/'' ''/doc/'' = Inr ''c/index.html''"
  by code_simp

lemma chunk_other_text: "chunk_text ''other text'' 1200 120 = [''other text'']"
  by code_simp

lemma str_nat_0: "str_nat 0 = ''0''"
  by code_simp






section \<open>Deduplication of chunks\<close>





















section \<open>Page ids across a resume\<close>

lemma normalize_doc:
  "normalize_url \<lparr>check_bracketed_host = (\<lambda>h. True), checknetloc = (\<lambda>n. True)\<rparr> ''http://h/doc/'' = Inr ''http://h/doc/''"
  "normalize_url \<lparr>check_bracketed_host = (\<lambda>h. True), checknetloc = (\<lambda>n. True)\<rparr> ''http://h/doc/b/'' = Inr ''http://h/doc/b/''"
  "normalize_url \<lparr>check_bracketed_host = (\<lambda>h. True), checknetloc = (\<lambda>n. True)\<rparr> ''http://h/doc/c/'' = Inr ''http://h/doc/c/''"
  by code_simp+

lemma urlparse_doc:
  "urlparse \<lparr>check_bracketed_host = (\<lambda>h. True), checknetloc = (\<lambda>n. True)\<rparr> ''http://h/doc/''
     = Inr \<lparr>scheme = ''http'', netloc = ''h'', path = ''/doc/'', params = [], query = [], fragment = []\<rparr>"
  by code_simp

lemma within_doc:
  "is_within_base \<lparr>check_bracketed_host = (\<lambda>h. True), checknetloc = (\<lambda>n. True)\<rparr> ''http://h/doc/'' ''h'' ''/doc/'' = Inr True"
  "is_within_base \<lparr>check_bracketed_host = (\<lambda>h. True), checknetloc = (\<lambda>n. True)\<rparr> ''http://h/doc/b/'' ''h'' ''/doc/'' = Inr True"
  "is_within_base \<lparr>check_bracketed_host = (\<lambda>h. True), checknetloc = (\<lambda>n. True)\<rparr> ''http://h/doc/c/'' ''h'' ''/doc/'' = Inr True"
  by code_simp+

lemma relpath_doc:
  "url_to_relpath \<lparr>check_bracketed_host = (\<lambda>h. True), checknetloc = (\<lambda>n. True)\<rparr>
     ''http://h/doc/'' ''/doc/'' = Inr ''index.html''"
  "url_to_relpath \<lparr>check_bracketed_host = (\<lambda>h. True), checknetloc = (\<lambda>n. True)\<rparr>
     ''http://h/doc/b/'' ''/doc/'' = Inr ''b/index.html''"
  by code_simp+

lemma chunk_same_text: "chunk_text ''same text'' 1200 120 = [''same text'']"
  by code_simp

lemma str_nat_1: "str_nat 1 = ''1''" "str_nat (Suc 0) = ''1''"
  by code_simp+

lemma lt_seed:
  "link_target example_site (failing_crawler\<lparr>visited := {|''http://h/doc/''|}\<rparr>) ''http://h/doc/'' ''http://h/doc/b/'' = Inr (Some ''http://h/doc/b/'')"
  "link_target example_site (failing_crawler\<lparr>visited := {|''http://h/doc/''|}\<rparr>) ''http://h/doc/'' ''http://h/doc/c/'' = Inr (Some ''http://h/doc/c/'')"
  "link_target example_site (failing_crawler\<lparr>visited := {|''http://h/doc/''|}\<rparr>) ''http://h/doc/'' ''mailto:me@h'' = Inr None"
  "link_target example_site (failing_crawler\<lparr>visited := {|''http://h/doc/''|}\<rparr>) ''http://h/doc/'' ''http://h/other/'' = Inr None"
  by code_simp+


lemma link_target_cong:
  assumes "visited s = visited t" "base_netloc (conf s) = base_netloc (conf t)"
    "base_path (conf s) = base_path (conf t)" "include_re (conf s) = include_re (conf t)"
    "exclude_re (conf s) = exclude_re (conf t)"
  shows "link_target w s base a = link_target w t base a"
  unfolding link_target_def assms ..

lemma enqueue_hrefs_ok:
  "map (link_target w s base) as = map Inr ls \<Longrightarrow>
     enqueue_hrefs w base as s
       = Inr (s\<lparr>queue := queue s @ concat (map (\<lambda>r. case r of None \<Rightarrow> [] | Some u \<Rightarrow> [u]) ls)\<rparr>)"
proof (induction as arbitrary: ls s)
  case Nil
  then show ?case by simp
next
  case (Cons a as)
  from Cons.prems obtain r rs where ls: "ls = r # rs" and a: "link_target w s base a = Inr r"
    and rest: "map (link_target w s base) as = map Inr rs" by (cases ls) auto
  show ?case
  proof (cases r)
    case None
    with a ls Cons.IH[OF rest] show ?thesis by simp
  next
    case (Some u)
    have "link_target w (s\<lparr>queue := queue s @ [u]\<rparr>) base = link_target w s base"
      by (rule ext) (rule link_target_queue)
    with rest have "map (link_target w (s\<lparr>queue := queue s @ [u]\<rparr>) base) as = map Inr rs"
      by simp
    from Cons.IH[OF this] a ls Some show ?thesis by simp
  qed
qed

lemma iteration_skip_visited:
  "queue s = url # rest \<Longrightarrow> url |\<in>| visited s \<Longrightarrow> iteration w s = Inr (s\<lparr>queue := rest\<rparr>)"
  by (simp add: iteration_def)

lemma run_step:
  "queue s \<noteq> [] \<Longrightarrow> int (fcard (visited s)) < max_pages (conf s) \<Longrightarrow> iteration w s = Inr s'
     \<Longrightarrow> run w None s = run w None s'"
  by (subst run.simps) simp

lemma run_stop:
  "\<not> (queue s \<noteq> [] \<and> int (fcard (visited s)) < max_pages (conf s))
     \<Longrightarrow> run w None s = (Finished, close_writers (write_stats s))"
  by (subst run.simps) auto

text \<open>What \<open>page_outputs\<close> adds to the record file and the hash set for a text of one
  chunk.\<close>

lemma page_outputs_one_chunk:
  assumes "tx \<noteq> []" "chunk_text tx (chunk_size (conf s)) (chunk_overlap (conf s)) = [ck]"
  shows "fw_full (out (page_outputs w s url html rel tx ti)) =
           fw_full (out s) @
             (if hash_text w ck |\<in>| chunk_hashes s then []
              else [\<lparr>fo_id = ''page-'' @ str_nat (page_id s), fo_url = url, fo_title = ti,
                      fo_chunk_index = 0, fo_chunk_count = 1, fo_contents = ck,
                      fo_hash = hash_text w ck\<rparr>])"
    and "chunk_hashes (page_outputs w s url html rel tx ti) = finsert (hash_text w ck) (chunk_hashes s)"
  using assms
  by (auto simp: page_outputs_def write_records_def Let_def write_chunk_def)

text \<open>A pass over a page that is fetched, has a text of one chunk, and raises nowhere.\<close>

lemma page_pass:
  assumes q: "queue s = url # rest" and nv: "url |\<notin>| visited s" and cf: "can_fetch w s url"
    and f: "http_get w (length (fetch_log s)) url = Response code body" "200 \<le> code" "code < 300"
    and r: "url_to_relpath (lib w) url (base_path (conf s)) = Inr rel"
    and m: "fs_mkdir w (Suc (length (fetch_log s))) (''html/'' @ rel) = None"
           "fs_mkdir w (Suc (length (fetch_log s))) (''text/'' @ with_suffix_txt rel) = None"
    and x: "soup_text_title w body = Some (tx, ti)"
    and ch: "tx \<noteq> []" "chunk_text tx (chunk_size (conf s)) (chunk_overlap (conf s)) = [ck]"
    and lk: "map (link_target w t url) (soup_hrefs w body) = map Inr ls"
      "visited t = finsert url (visited s)" "base_netloc (conf t) = base_netloc (conf s)"
      "base_path (conf t) = base_path (conf s)" "include_re (conf t) = include_re (conf s)"
      "exclude_re (conf t) = exclude_re (conf s)"
    and b: "heartbeat_every (conf s) \<noteq> 0"
    and sl: "time_sleep w (delay (conf s)) = None"
  shows "\<exists>s'. iteration w s = Inr s' \<and> conf s' = conf s
           \<and> visited s' = finsert url (visited s)
           \<and> queue s' = rest @ concat (map (\<lambda>r. case r of None \<Rightarrow> [] | Some u \<Rightarrow> [u]) ls)
           \<and> page_id s' = page_id s + 1
           \<and> chunk_hashes s' = finsert (hash_text w ck) (chunk_hashes s)
           \<and> fw_full (out s') = fw_full (out s) @
               (if hash_text w ck |\<in>| chunk_hashes s then []
                else [\<lparr>fo_id = ''page-'' @ str_nat (page_id s), fo_url = url, fo_title = ti,
                        fo_chunk_index = 0, fo_chunk_count = 1, fo_contents = ck,
                        fo_hash = hash_text w ck\<rparr>])
           \<and> fw_mani (out s') = fw_mani (out s) @
               [Row \<lparr>mr_id = ''page-'' @ str_nat (page_id s), mr_url = url, mr_title = ti,
                      mr_html_path = (if save_html (conf s) then ''html/'' @ rel else []),
                      mr_txt_path = (if save_text (conf s)
                                     then ''text/'' @ with_suffix_txt rel else []),
                      mr_chars = length tx\<rparr>]"
proof -
  define s4 where "s4 = s\<lparr>queue := rest, visited := finsert url (visited s),
        stats := (stats s)\<lparr>queue_peek := max (queue_peek (stats s)) (length rest)\<rparr>,
        fetch_log := fetch_log s @ [url]\<rparr>"
  define po where "po = page_outputs w s4 url body rel tx ti"
  define new where "new = concat (map (\<lambda>r. case r of None \<Rightarrow> [] | Some u \<Rightarrow> [u]) ls)"
  have c4: "conf s4 = conf s" "fetch_log s4 = fetch_log s @ [url]" "page_id s4 = page_id s"
    "chunk_hashes s4 = chunk_hashes s" "out s4 = out s"
    by (simp_all add: s4_def)
  have fr: "conf po = conf s" "page_id po = page_id s" "queue po = rest"
    "visited po = finsert url (visited s)"
    using page_outputs_frame[of w s4 url body rel tx ti] by (simp_all add: po_def s4_def)
  have ch4: "chunk_text tx (chunk_size (conf s4)) (chunk_overlap (conf s4)) = [ck]"
    using ch(2) by (simp add: c4)
  note oc = page_outputs_one_chunk[OF ch(1) ch4, of w url body rel ti, folded po_def]
  have mn: "fw_mani (out po) = fw_mani (out s) @
               [Row \<lparr>mr_id = ''page-'' @ str_nat (page_id s), mr_url = url, mr_title = ti,
                      mr_html_path = (if save_html (conf s) then ''html/'' @ rel else []),
                      mr_txt_path = (if save_text (conf s)
                                     then ''text/'' @ with_suffix_txt rel else []),
                      mr_chars = length tx\<rparr>]"
    unfolding po_def page_outputs_manifest using ch by (simp add: c4)
  have "link_target w po url = link_target w t url"
    by (rule ext) (rule link_target_cong, simp_all add: lk(2-6) fr)
  with lk(1) have "map (link_target w po url) (soup_hrefs w body) = map Inr ls"
    by simp
  from enqueue_hrefs_ok[OF this]
  have en: "enqueue_links w po body url = Inr (po\<lparr>queue := rest @ new\<rparr>)"
    by (simp add: enqueue_links_def fr new_def)
  have "iteration w s = process_page w s4 url body"
    using f by (simp add: iteration_fetch[OF q nv cf] s4_def)
  also have "\<dots> = Inr (po\<lparr>queue := rest @ new, page_id := page_id s + 1\<rparr>)"
    using r m x b sl fr(1,2) en
    by (simp add: process_page_def c4 po_def[symmetric] Let_def)
  finally show ?thesis
    using fr oc mn unfolding c4 new_def
    by (intro exI[of _ "po\<lparr>queue := rest @ concat (map (\<lambda>r. case r of None \<Rightarrow> [] | Some u \<Rightarrow> [u]) ls),
         page_id := page_id s + 1\<rparr>"]) simp
qed


lemma example_world:
  "lib example_site = \<lparr>check_bracketed_host = (\<lambda>h. True), checknetloc = (\<lambda>n. True)\<rparr>"
  "time_sleep example_site (Finite (1 / 2)) = None"
  "soup_text_title example_site ''A'' = Some (''same text'', ''Title A'')"
  "soup_text_title example_site ''B'' = Some (''same text'', ''Title B'')"
  "soup_text_title example_site ''C'' = Some (''other text'', ''Title C'')"
  "soup_hrefs example_site ''A'' = [''http://h/doc/b/'', ''http://h/doc/b/'', ''http://h/doc/c/'',
                                     ''mailto:me@h'', ''http://h/other/'']"
  "soup_hrefs example_site ''B'' = []" "soup_hrefs example_site ''C'' = []"
  "fs_mkdir example_site n p = None"
  "http_get example_site n ''http://h/doc/'' = Response 200 ''A''"
  "http_get example_site n ''http://h/doc/b/'' = Response 200 ''B''"
  "http_get example_site n ''http://h/doc/c/'' = Response 200 ''C''"
  "hash_text example_site ck = ck"
  "sitemap_locs example_site u = [''http://h/doc/'', ''http://h/doc/b/'', ''http://h/doc/c/'']"
  by (simp_all add: example_site_def)

lemma endswith_doc: "endswith ''/doc/'' ''/''"
  by code_simp

lemma first_init:
  "\<exists>s. Crawler_init example_site first_args empty_disk = Inr s
     \<and> conf s = (conf failing_crawler)\<lparr>max_pages := 2, use_sitemap := True, chunk_size := 1200\<rparr>
     \<and> visited s = {||}
     \<and> queue s = [''http://h/doc/'', ''http://h/doc/'', ''http://h/doc/b/'', ''http://h/doc/c/'']
     \<and> page_id s = 0 \<and> chunk_hashes s = {||}
     \<and> fw_full (out s) = [] \<and> fw_mani (out s) = [Header]"
  by (simp add: Crawler_init_def first_args_def example_args_def example_world
      normalize_doc urlparse_doc within_doc seed_queue_def endswith_doc empty_disk_def Let_def
      failing_crawler_def)

lemma first_run:
  assumes c: "conf s = (conf failing_crawler)\<lparr>max_pages := 2, use_sitemap := True, chunk_size := 1200\<rparr>"
    and v: "visited s = {||}"
    and q: "queue s = [''http://h/doc/'', ''http://h/doc/'', ''http://h/doc/b/'', ''http://h/doc/c/'']"
    and p: "page_id s = 0" and h: "chunk_hashes s = {||}"
    and o: "fw_full (out s) = []" "fw_mani (out s) = [Header]"
  shows "\<exists>s'. run example_site None s = (Finished, s')
     \<and> fw_full (out s') =
         [\<lparr>fo_id = ''page-0'', fo_url = ''http://h/doc/'', fo_title = ''Title A'',
           fo_chunk_index = 0, fo_chunk_count = 1, fo_contents = ''same text'',
           fo_hash = ''same text''\<rparr>]
     \<and> fw_mani (out s') =
         [Header,
          Row \<lparr>mr_id = ''page-0'', mr_url = ''http://h/doc/'', mr_title = ''Title A'',
                mr_html_path = [], mr_txt_path = [], mr_chars = 9\<rparr>,
          Row \<lparr>mr_id = ''page-1'', mr_url = ''http://h/doc/b/'', mr_title = ''Title B'',
                mr_html_path = [], mr_txt_path = [], mr_chars = 9\<rparr>]"
proof -
  have cc: "base_path (conf s) = ''/doc/''" "base_netloc (conf s) = ''h''"
    "heartbeat_every (conf s) = 10" "delay (conf s) = Finite (1 / 2)"
    "\<not> robot_parser (conf s)" "max_pages (conf s) = 2"
    "chunk_size (conf s) = 1200" "chunk_overlap (conf s) = 120"
    "\<not> save_html (conf s)" "\<not> save_text (conf s)"
    "include_re (conf s) = None" "exclude_re (conf s) = None"
    by (simp_all add: c failing_crawler_def)
  define t where "t = failing_crawler\<lparr>visited := {|''http://h/doc/''|}\<rparr>"
  have tt: "visited t = {|''http://h/doc/''|}" "base_netloc (conf t) = ''h''"
    "base_path (conf t) = ''/doc/''" "include_re (conf t) = None" "exclude_re (conf t) = None"
    by (simp_all add: t_def failing_crawler_def)
  have lk: "link_target example_site t ''http://h/doc/'' ''http://h/doc/b/'' = Inr (Some ''http://h/doc/b/'')"
    "link_target example_site t ''http://h/doc/'' ''http://h/doc/c/'' = Inr (Some ''http://h/doc/c/'')"
    "link_target example_site t ''http://h/doc/'' ''mailto:me@h'' = Inr None"
    "link_target example_site t ''http://h/doc/'' ''http://h/other/'' = Inr None"
    by (simp_all add: t_def lt_seed)
  have "\<exists>s1. iteration example_site s = Inr s1 \<and> conf s1 = conf s
           \<and> visited s1 = finsert ''http://h/doc/'' (visited s)
           \<and> queue s1 = [''http://h/doc/'', ''http://h/doc/b/'', ''http://h/doc/c/''] @
                concat (map (\<lambda>r. case r of None \<Rightarrow> [] | Some u \<Rightarrow> [u])
                  [Some ''http://h/doc/b/'', Some ''http://h/doc/b/'', Some ''http://h/doc/c/'', None, None])
           \<and> page_id s1 = page_id s + 1
           \<and> chunk_hashes s1 = finsert (hash_text example_site ''same text'') (chunk_hashes s)
           \<and> fw_full (out s1) = fw_full (out s) @
               (if hash_text example_site ''same text'' |\<in>| chunk_hashes s then []
                else [\<lparr>fo_id = ''page-'' @ str_nat (page_id s), fo_url = ''http://h/doc/'',
                        fo_title = ''Title A'',
                        fo_chunk_index = 0, fo_chunk_count = 1, fo_contents = ''same text'',
                        fo_hash = hash_text example_site ''same text''\<rparr>])
           \<and> fw_mani (out s1) = fw_mani (out s) @
               [Row \<lparr>mr_id = ''page-'' @ str_nat (page_id s), mr_url = ''http://h/doc/'',
                      mr_title = ''Title A'',
                      mr_html_path = (if save_html (conf s) then ''html/'' @ ''index.html'' else []),
                      mr_txt_path = (if save_text (conf s)
                                     then ''text/'' @ with_suffix_txt ''index.html'' else []),
                      mr_chars = length ''same text''\<rparr>]"
    by (rule page_pass[where code = 200 and body = "''A''" and t = t])
       (simp_all add: q v cc tt lk example_world can_fetch_def relpath_doc chunk_same_text)
  then obtain s1 where a1: "iteration example_site s = Inr s1 \<and> conf s1 = conf s
           \<and> visited s1 = finsert ''http://h/doc/'' (visited s)
           \<and> queue s1 = [''http://h/doc/'', ''http://h/doc/b/'', ''http://h/doc/c/''] @
                concat (map (\<lambda>r. case r of None \<Rightarrow> [] | Some u \<Rightarrow> [u])
                  [Some ''http://h/doc/b/'', Some ''http://h/doc/b/'', Some ''http://h/doc/c/'', None, None])
           \<and> page_id s1 = page_id s + 1
           \<and> chunk_hashes s1 = finsert (hash_text example_site ''same text'') (chunk_hashes s)
           \<and> fw_full (out s1) = fw_full (out s) @
               (if hash_text example_site ''same text'' |\<in>| chunk_hashes s then []
                else [\<lparr>fo_id = ''page-'' @ str_nat (page_id s), fo_url = ''http://h/doc/'',
                        fo_title = ''Title A'',
                        fo_chunk_index = 0, fo_chunk_count = 1, fo_contents = ''same text'',
                        fo_hash = hash_text example_site ''same text''\<rparr>])
           \<and> fw_mani (out s1) = fw_mani (out s) @
               [Row \<lparr>mr_id = ''page-'' @ str_nat (page_id s), mr_url = ''http://h/doc/'',
                      mr_title = ''Title A'',
                      mr_html_path = (if save_html (conf s) then ''html/'' @ ''index.html'' else []),
                      mr_txt_path = (if save_text (conf s)
                                     then ''text/'' @ with_suffix_txt ''index.html'' else []),
                      mr_chars = length ''same text''\<rparr>]" ..
  have i1: "iteration example_site s = Inr s1" and c1: "conf s1 = conf s"
    using a1 by simp_all
  have v1: "visited s1 = {|''http://h/doc/''|}" using a1 by (simp add: v)
  have q1: "queue s1 = [''http://h/doc/'', ''http://h/doc/b/'', ''http://h/doc/c/'',
                         ''http://h/doc/b/'', ''http://h/doc/b/'', ''http://h/doc/c/'']"
    using a1 by simp
  have p1: "page_id s1 = 1" using a1 by (simp add: p)
  have h1: "chunk_hashes s1 = {|''same text''|}" using a1 by (simp add: h example_world)
  have o1: "fw_full (out s1) =
         [\<lparr>fo_id = ''page-0'', fo_url = ''http://h/doc/'', fo_title = ''Title A'',
           fo_chunk_index = 0, fo_chunk_count = 1, fo_contents = ''same text'',
           fo_hash = ''same text''\<rparr>]"
      "fw_mani (out s1) = [Header,
          Row \<lparr>mr_id = ''page-0'', mr_url = ''http://h/doc/'', mr_title = ''Title A'',
                mr_html_path = [], mr_txt_path = [], mr_chars = 9\<rparr>]"
    using a1 by (simp_all add: p h o cc example_world str_nat_0)
  define s2 where "s2 = s1\<lparr>queue := [''http://h/doc/b/'', ''http://h/doc/c/'',
                         ''http://h/doc/b/'', ''http://h/doc/b/'', ''http://h/doc/c/'']\<rparr>"
  have i2: "iteration example_site s1 = Inr s2"
    unfolding s2_def
    by (rule iteration_skip_visited[where url = "''http://h/doc/''"]) (simp_all add: q1 v1)
  have f2: "conf s2 = conf s" "visited s2 = {|''http://h/doc/''|}"
    "queue s2 = [''http://h/doc/b/'', ''http://h/doc/c/'',
                         ''http://h/doc/b/'', ''http://h/doc/b/'', ''http://h/doc/c/'']"
    "page_id s2 = 1" "chunk_hashes s2 = {|''same text''|}"
    "fw_full (out s2) = fw_full (out s1)" "fw_mani (out s2) = fw_mani (out s1)"
    by (simp_all add: s2_def c1 v1 p1 h1)
  have "\<exists>s3. iteration example_site s2 = Inr s3 \<and> conf s3 = conf s2
           \<and> visited s3 = finsert ''http://h/doc/b/'' (visited s2)
           \<and> queue s3 = [''http://h/doc/c/'', ''http://h/doc/b/'', ''http://h/doc/b/'', ''http://h/doc/c/''] @
                concat (map (\<lambda>r. case r of None \<Rightarrow> [] | Some u \<Rightarrow> [u]) [])
           \<and> page_id s3 = page_id s2 + 1
           \<and> chunk_hashes s3 = finsert (hash_text example_site ''same text'') (chunk_hashes s2)
           \<and> fw_full (out s3) = fw_full (out s2) @
               (if hash_text example_site ''same text'' |\<in>| chunk_hashes s2 then []
                else [\<lparr>fo_id = ''page-'' @ str_nat (page_id s2), fo_url = ''http://h/doc/b/'',
                        fo_title = ''Title B'',
                        fo_chunk_index = 0, fo_chunk_count = 1, fo_contents = ''same text'',
                        fo_hash = hash_text example_site ''same text''\<rparr>])
           \<and> fw_mani (out s3) = fw_mani (out s2) @
               [Row \<lparr>mr_id = ''page-'' @ str_nat (page_id s2), mr_url = ''http://h/doc/b/'',
                      mr_title = ''Title B'',
                      mr_html_path = (if save_html (conf s2) then ''html/'' @ ''b/index.html'' else []),
                      mr_txt_path = (if save_text (conf s2)
                                     then ''text/'' @ with_suffix_txt ''b/index.html'' else []),
                      mr_chars = length ''same text''\<rparr>]"
    by (rule page_pass[where code = 200 and body = "''B''"
          and t = "s2\<lparr>visited := finsert ''http://h/doc/b/'' (visited s2)\<rparr>"])
       (simp_all add: f2 cc example_world can_fetch_def relpath_doc chunk_same_text)
  then obtain s3 where a3: "iteration example_site s2 = Inr s3 \<and> conf s3 = conf s2
           \<and> visited s3 = finsert ''http://h/doc/b/'' (visited s2)
           \<and> queue s3 = [''http://h/doc/c/'', ''http://h/doc/b/'', ''http://h/doc/b/'', ''http://h/doc/c/''] @
                concat (map (\<lambda>r. case r of None \<Rightarrow> [] | Some u \<Rightarrow> [u]) [])
           \<and> page_id s3 = page_id s2 + 1
           \<and> chunk_hashes s3 = finsert (hash_text example_site ''same text'') (chunk_hashes s2)
           \<and> fw_full (out s3) = fw_full (out s2) @
               (if hash_text example_site ''same text'' |\<in>| chunk_hashes s2 then []
                else [\<lparr>fo_id = ''page-'' @ str_nat (page_id s2), fo_url = ''http://h/doc/b/'',
                        fo_title = ''Title B'',
                        fo_chunk_index = 0, fo_chunk_count = 1, fo_contents = ''same text'',
                        fo_hash = hash_text example_site ''same text''\<rparr>])
           \<and> fw_mani (out s3) = fw_mani (out s2) @
               [Row \<lparr>mr_id = ''page-'' @ str_nat (page_id s2), mr_url = ''http://h/doc/b/'',
                      mr_title = ''Title B'',
                      mr_html_path = (if save_html (conf s2) then ''html/'' @ ''b/index.html'' else []),
                      mr_txt_path = (if save_text (conf s2)
                                     then ''text/'' @ with_suffix_txt ''b/index.html'' else []),
                      mr_chars = length ''same text''\<rparr>]" ..
  have i3: "iteration example_site s2 = Inr s3" using a3 by simp
  have v3: "visited s3 = {|''http://h/doc/b/'', ''http://h/doc/''|}" using a3 by (simp add: f2)
  have c3: "conf s3 = conf s" using a3 by (simp add: f2)
  have o3: "fw_full (out s3) = fw_full (out s1)"
      "fw_mani (out s3) = fw_mani (out s1) @
          [Row \<lparr>mr_id = ''page-1'', mr_url = ''http://h/doc/b/'', mr_title = ''Title B'',
                mr_html_path = [], mr_txt_path = [], mr_chars = 9\<rparr>]"
    using a3 by (simp_all add: f2 cc example_world str_nat_1)
  have "run example_site None s = run example_site None s1"
    using i1 by (intro run_step) (simp_all add: q v cc fcard_fempty)
  also have "\<dots> = run example_site None s2"
    using i2 by (intro run_step) (simp_all add: q1 v1 c1 cc fcard_finsert_if fcard_fempty)
  also have "\<dots> = run example_site None s3"
    using i3 by (intro run_step) (simp_all add: f2 cc fcard_finsert_if fcard_fempty)
  also have "\<dots> = (Finished, close_writers (write_stats s3))"
    by (rule run_stop) (simp add: v3 c3 cc fcard_finsert_if fcard_fempty)
  finally show ?thesis
    by (simp add: finish_fields o3 o1)
qed


lemma resume_init:
  assumes "corpus_full d = Some fs"
    and "manifest_csv d = Some [Header, Row r0, Row r1]"
    and "mr_url r0 = ''http://h/doc/''" "mr_url r1 = ''http://h/doc/b/''"
  shows "\<exists>s. Crawler_init example_site resume_args d = Inr s
     \<and> conf s = (conf failing_crawler)\<lparr>max_pages := 3, use_sitemap := True, chunk_size := 1200\<rparr>
     \<and> visited s = {|''http://h/doc/'', ''http://h/doc/b/''|}
     \<and> queue s = [''http://h/doc/'', ''http://h/doc/'', ''http://h/doc/b/'', ''http://h/doc/c/'']
     \<and> page_id s = length fs \<and> chunk_hashes s = {||}
     \<and> fw_full (out s) = fs \<and> fw_mani (out s) = [Header, Row r0, Row r1]"
  using assms
  by (simp add: Crawler_init_def resume_args_def first_args_def example_args_def example_world
      normalize_doc urlparse_doc within_doc seed_queue_def endswith_doc Let_def
      failing_crawler_def read_existing_urls_from_manifest_def line_url_def)

lemma resume_run:
  assumes c: "conf s = (conf failing_crawler)\<lparr>max_pages := 3, use_sitemap := True, chunk_size := 1200\<rparr>"
    and v: "visited s = {|''http://h/doc/'', ''http://h/doc/b/''|}"
    and q: "queue s = [''http://h/doc/'', ''http://h/doc/'', ''http://h/doc/b/'', ''http://h/doc/c/'']"
    and p: "page_id s = 1" and h: "chunk_hashes s = {||}"
  shows "\<exists>s'. run example_site None s = (Finished, s')
     \<and> fw_full (out s') = fw_full (out s) @
         [\<lparr>fo_id = ''page-1'', fo_url = ''http://h/doc/c/'', fo_title = ''Title C'',
           fo_chunk_index = 0, fo_chunk_count = 1, fo_contents = ''other text'',
           fo_hash = ''other text''\<rparr>]
     \<and> fw_mani (out s') = fw_mani (out s) @
         [Row \<lparr>mr_id = ''page-1'', mr_url = ''http://h/doc/c/'', mr_title = ''Title C'',
                mr_html_path = [], mr_txt_path = [], mr_chars = 10\<rparr>]"
proof -
  have cc: "base_path (conf s) = ''/doc/''" "base_netloc (conf s) = ''h''"
    "heartbeat_every (conf s) = 10" "delay (conf s) = Finite (1 / 2)"
    "\<not> robot_parser (conf s)" "max_pages (conf s) = 3"
    "chunk_size (conf s) = 1200" "chunk_overlap (conf s) = 120"
    "\<not> save_html (conf s)" "\<not> save_text (conf s)"
    "include_re (conf s) = None" "exclude_re (conf s) = None"
    by (simp_all add: c failing_crawler_def)
  have fc: "fcard (visited s) = 2"
    by (simp add: v fcard_finsert_if fcard_fempty)
  define s1 where "s1 = s\<lparr>queue := [''http://h/doc/'', ''http://h/doc/b/'', ''http://h/doc/c/'']\<rparr>"
  define s2 where "s2 = s1\<lparr>queue := [''http://h/doc/b/'', ''http://h/doc/c/'']\<rparr>"
  define s3 where "s3 = s2\<lparr>queue := [''http://h/doc/c/'']\<rparr>"
  have i1: "iteration example_site s = Inr s1"
    unfolding s1_def
    by (rule iteration_skip_visited[where url = "''http://h/doc/''"]) (simp_all add: q v)
  have i2: "iteration example_site s1 = Inr s2"
    unfolding s2_def
    by (rule iteration_skip_visited[where url = "''http://h/doc/''"]) (simp_all add: s1_def v)
  have i3: "iteration example_site s2 = Inr s3"
    unfolding s3_def
    by (rule iteration_skip_visited[where url = "''http://h/doc/b/''"]) (simp_all add: s2_def s1_def v)
  have f3: "conf s3 = conf s" "visited s3 = visited s" "queue s3 = [''http://h/doc/c/'']"
    "page_id s3 = 1" "chunk_hashes s3 = {||}" "out s3 = out s"
    by (simp_all add: s3_def s2_def s1_def p h)
  have "\<exists>s4. iteration example_site s3 = Inr s4 \<and> conf s4 = conf s3
           \<and> visited s4 = finsert ''http://h/doc/c/'' (visited s3)
           \<and> queue s4 = [] @ concat (map (\<lambda>r. case r of None \<Rightarrow> [] | Some u \<Rightarrow> [u]) [])
           \<and> page_id s4 = page_id s3 + 1
           \<and> chunk_hashes s4 = finsert (hash_text example_site ''other text'') (chunk_hashes s3)
           \<and> fw_full (out s4) = fw_full (out s3) @
               (if hash_text example_site ''other text'' |\<in>| chunk_hashes s3 then []
                else [\<lparr>fo_id = ''page-'' @ str_nat (page_id s3), fo_url = ''http://h/doc/c/'',
                        fo_title = ''Title C'',
                        fo_chunk_index = 0, fo_chunk_count = 1, fo_contents = ''other text'',
                        fo_hash = hash_text example_site ''other text''\<rparr>])
           \<and> fw_mani (out s4) = fw_mani (out s3) @
               [Row \<lparr>mr_id = ''page-'' @ str_nat (page_id s3), mr_url = ''http://h/doc/c/'',
                      mr_title = ''Title C'',
                      mr_html_path = (if save_html (conf s3) then ''html/'' @ ''c/index.html'' else []),
                      mr_txt_path = (if save_text (conf s3)
                                     then ''text/'' @ with_suffix_txt ''c/index.html'' else []),
                      mr_chars = length ''other text''\<rparr>]"
    by (rule page_pass[where code = 200 and body = "''C''"
          and t = "s3\<lparr>visited := finsert ''http://h/doc/c/'' (visited s3)\<rparr>"])
       (simp_all add: f3 v cc example_world can_fetch_def relpath_c chunk_other_text)
  then obtain s4 where a4: "iteration example_site s3 = Inr s4 \<and> conf s4 = conf s3
           \<and> visited s4 = finsert ''http://h/doc/c/'' (visited s3)
           \<and> queue s4 = [] @ concat (map (\<lambda>r. case r of None \<Rightarrow> [] | Some u \<Rightarrow> [u]) [])
           \<and> page_id s4 = page_id s3 + 1
           \<and> chunk_hashes s4 = finsert (hash_text example_site ''other text'') (chunk_hashes s3)
           \<and> fw_full (out s4) = fw_full (out s3) @
               (if hash_text example_site ''other text'' |\<in>| chunk_hashes s3 then []
                else [\<lparr>fo_id = ''page-'' @ str_nat (page_id s3), fo_url = ''http://h/doc/c/'',
                        fo_title = ''Title C'',
                        fo_chunk_index = 0, fo_chunk_count = 1, fo_contents = ''other text'',
                        fo_hash = hash_text example_site ''other text''\<rparr>])
           \<and> fw_mani (out s4) = fw_mani (out s3) @
               [Row \<lparr>mr_id = ''page-'' @ str_nat (page_id s3), mr_url = ''http://h/doc/c/'',
                      mr_title = ''Title C'',
                      mr_html_path = (if save_html (conf s3) then ''html/'' @ ''c/index.html'' else []),
                      mr_txt_path = (if save_text (conf s3)
                                     then ''text/'' @ with_suffix_txt ''c/index.html'' else []),
                      mr_chars = length ''other text''\<rparr>]" ..
  have i4: "iteration example_site s3 = Inr s4" using a4 by simp
  have q4: "queue s4 = []" using a4 by simp
  have o4: "fw_full (out s4) = fw_full (out s) @
         [\<lparr>fo_id = ''page-1'', fo_url = ''http://h/doc/c/'', fo_title = ''Title C'',
           fo_chunk_index = 0, fo_chunk_count = 1, fo_contents = ''other text'',
           fo_hash = ''other text''\<rparr>]"
     "fw_mani (out s4) = fw_mani (out s) @
         [Row \<lparr>mr_id = ''page-1'', mr_url = ''http://h/doc/c/'', mr_title = ''Title C'',
                mr_html_path = [], mr_txt_path = [], mr_chars = 10\<rparr>]"
    using a4 by (simp_all add: f3 cc example_world str_nat_1)
  have "run example_site None s = run example_site None s1"
    using i1 by (intro run_step) (simp_all add: q fc cc)
  also have "\<dots> = run example_site None s2"
    using i2 by (intro run_step) (simp_all add: s1_def fc cc)
  also have "\<dots> = run example_site None s3"
    using i3 by (intro run_step) (simp_all add: s2_def s1_def fc cc)
  also have "\<dots> = run example_site None s4"
    using i4 by (intro run_step) (simp_all add: f3 fc cc)
  also have "\<dots> = (Finished, close_writers (write_stats s4))"
    by (rule run_stop) (simp add: q4)
  finally show ?thesis
    by (simp add: finish_fields o4)
qed

text \<open>
  C3 fails on the following two runs of the example site. The first run, of at most two
  pages, fetches the seed page (page id 0, one record) and the page \<open>b\<close> (page id 1), whose
  only chunk repeats the text of the seed page and is discarded as a duplicate: the
  manifest has the rows \<open>page-0\<close> and \<open>page-1\<close>, the record file has one line. The run
  resumed in the same output directory, of at most three pages, starts from the number of
  lines of the record file, 1, and gives the page \<open>c\<close> the page id 1 again: the manifest
  ends with two rows of id \<open>page-1\<close> for two different URLs.
\<close>

theorem page_id_reused_on_resume:
  "\<exists>s1 s2. main example_site first_args None empty_disk = Inr (Finished, s1)
     \<and> main example_site resume_args None (disk_of (out s1)) = Inr (Finished, s2)
     \<and> fw_mani (out s1) =
         [Header,
          Row \<lparr>mr_id = ''page-0'', mr_url = ''http://h/doc/'', mr_title = ''Title A'',
                mr_html_path = [], mr_txt_path = [], mr_chars = 9\<rparr>,
          Row \<lparr>mr_id = ''page-1'', mr_url = ''http://h/doc/b/'', mr_title = ''Title B'',
                mr_html_path = [], mr_txt_path = [], mr_chars = 9\<rparr>]
     \<and> fw_mani (out s2) =
         [Header,
          Row \<lparr>mr_id = ''page-0'', mr_url = ''http://h/doc/'', mr_title = ''Title A'',
                mr_html_path = [], mr_txt_path = [], mr_chars = 9\<rparr>,
          Row \<lparr>mr_id = ''page-1'', mr_url = ''http://h/doc/b/'', mr_title = ''Title B'',
                mr_html_path = [], mr_txt_path = [], mr_chars = 9\<rparr>,
          Row \<lparr>mr_id = ''page-1'', mr_url = ''http://h/doc/c/'', mr_title = ''Title C'',
                mr_html_path = [], mr_txt_path = [], mr_chars = 10\<rparr>]
     \<and> map fo_id (fw_full (out s2)) = [''page-0'', ''page-1'']"
proof -
  from first_init obtain s0 where s0: "Crawler_init example_site first_args empty_disk = Inr s0"
    "conf s0 = (conf failing_crawler)\<lparr>max_pages := 2, use_sitemap := True, chunk_size := 1200\<rparr>"
    "visited s0 = {||}"
    "queue s0 = [''http://h/doc/'', ''http://h/doc/'', ''http://h/doc/b/'', ''http://h/doc/c/'']"
    "page_id s0 = 0" "chunk_hashes s0 = {||}"
    "fw_full (out s0) = []" "fw_mani (out s0) = [Header]" by blast
  from first_run[OF s0(2-8)] obtain s1 where s1: "run example_site None s0 = (Finished, s1)"
    "fw_full (out s1) =
         [\<lparr>fo_id = ''page-0'', fo_url = ''http://h/doc/'', fo_title = ''Title A'',
           fo_chunk_index = 0, fo_chunk_count = 1, fo_contents = ''same text'',
           fo_hash = ''same text''\<rparr>]"
    "fw_mani (out s1) =
         [Header,
          Row \<lparr>mr_id = ''page-0'', mr_url = ''http://h/doc/'', mr_title = ''Title A'',
                mr_html_path = [], mr_txt_path = [], mr_chars = 9\<rparr>,
          Row \<lparr>mr_id = ''page-1'', mr_url = ''http://h/doc/b/'', mr_title = ''Title B'',
                mr_html_path = [], mr_txt_path = [], mr_chars = 9\<rparr>]" by blast
  have m1: "main example_site first_args None empty_disk = Inr (Finished, s1)"
    by (simp add: main_def s0(1) s1(1))
  have d: "corpus_full (disk_of (out s1)) = Some (fw_full (out s1))"
    "manifest_csv (disk_of (out s1)) = Some (fw_mani (out s1))"
    by (simp_all add: disk_of_def)
  from resume_init[OF d(1) d(2)[unfolded s1(3)]]
  obtain r where r: "Crawler_init example_site resume_args (disk_of (out s1)) = Inr r"
    "conf r = (conf failing_crawler)\<lparr>max_pages := 3, use_sitemap := True, chunk_size := 1200\<rparr>"
    "visited r = {|''http://h/doc/'', ''http://h/doc/b/''|}"
    "queue r = [''http://h/doc/'', ''http://h/doc/'', ''http://h/doc/b/'', ''http://h/doc/c/'']"
    "page_id r = length (fw_full (out s1))" "chunk_hashes r = {||}"
    "fw_full (out r) = fw_full (out s1)" "fw_mani (out r) = fw_mani (out s1)"
    unfolding s1(3) by auto
  have pr: "page_id r = 1" by (simp add: r(5) s1(2))
  from resume_run[OF r(2-4) pr r(6)] obtain s2 where s2: "run example_site None r = (Finished, s2)"
    "fw_full (out s2) = fw_full (out r) @
         [\<lparr>fo_id = ''page-1'', fo_url = ''http://h/doc/c/'', fo_title = ''Title C'',
           fo_chunk_index = 0, fo_chunk_count = 1, fo_contents = ''other text'',
           fo_hash = ''other text''\<rparr>]"
    "fw_mani (out s2) = fw_mani (out r) @
         [Row \<lparr>mr_id = ''page-1'', mr_url = ''http://h/doc/c/'', mr_title = ''Title C'',
                mr_html_path = [], mr_txt_path = [], mr_chars = 10\<rparr>]" by blast
  have m2: "main example_site resume_args None (disk_of (out s1)) = Inr (Finished, s2)"
    by (simp add: main_def r(1) s2(1))
  show ?thesis
    using m1 m2 s1(3) s2(2,3) r(7,8) s1(2)
    by (intro exI[of _ s1] exI[of _ s2]) simp
qed

end
